theory Spec2Isabelle
  imports Main
begin

section \<open>The instructor search page of TEAMMATES\<close>

text \<open>
  A shallow embedding of \<^verbatim>\<open>instructor-search-page.component.ts\<close>: the grouping of student
  search results by course (\<^verbatim>\<open>getCoursesWithStudents\<close>), the privilege lookups
  (\<^verbatim>\<open>getPrivileges\<close>), the positional merge (\<^verbatim>\<open>combinePrivileges\<close>) and the
  page controller (\<^verbatim>\<open>search\<close>) with its subscriber callbacks.
\<close>

subsection \<open>Data model\<close>

text \<open>
  A \<^verbatim>\<open>Student\<close> is a JavaScript object. A JavaScript \<^verbatim>\<open>Set\<close> compares objects by
  reference, so a student result list is a list of references into a store of student
  objects; two references are the same object exactly when they are equal. The field
  \<open>name\<close> stands for the profile fields the component never reads.
\<close>

type_synonym ref = nat

record Student =
  courseId :: string
  sectionName :: string
  name :: string

type_synonym heap = "ref \<Rightarrow> Student"

record StudentListRowModel =
  student :: ref
  isAllowedToViewStudentInSection :: bool
  isAllowedToModifyStudent :: bool

record SearchStudentsListRowTable =
  courseId :: string
  students :: "StudentListRowModel list"

record InstructorPrivilege =
  canViewStudentInSections :: bool
  canModifyStudent :: bool

text \<open>The comment payloads are passed through unread; strings stand for them.\<close>

record CommentSearchResult =
  feedbackSession :: string
  questions :: string

record SearchCommentsTable =
  feedbackSession :: string
  questions :: string

record InstructorSearchResult =
  students :: "ref list"
  comments :: "CommentSearchResult list"

text \<open>
  Both fields of a \<^verbatim>\<open>TransformedInstructorSearchResult\<close> are absent in the placeholder
  \<^verbatim>\<open>of({})\<close>: \<open>None\<close> is JavaScript's \<^verbatim>\<open>undefined\<close>.
\<close>

record TransformedInstructorSearchResult =
  searchCommentTables :: "SearchCommentsTable list option"
  searchStudentTables :: "SearchStudentsListRowTable list option"

record SearchParams =
  searchKey :: string
  isSearchForStudents :: bool
  isSearchForComments :: bool

text \<open>
  The component's fields. \<open>commentTables\<close> is assigned \<^verbatim>\<open>resp[0].searchCommentTables\<close>,
  which is \<^verbatim>\<open>undefined\<close> for the placeholder, hence the option.
\<close>

record InstructorSearchPageComponent =
  searchParams :: SearchParams
  studentsListRowTables :: "SearchStudentsListRowTable list"
  commentTables :: "SearchCommentsTable list option"
  isSearching :: bool

subsection \<open>JavaScript sets\<close>

text \<open>
  A \<^verbatim>\<open>Set\<close> keeps its elements in insertion order, and adding an element it already
  holds changes nothing; \<^verbatim>\<open>Array.from(new Set(xs))\<close> lists the elements in that order.
\<close>

definition Set_add :: "'a list \<Rightarrow> 'a \<Rightarrow> 'a list" where
  "Set_add s x = (if x \<in> set s then s else s @ [x])"

definition new_Set :: "'a list \<Rightarrow> 'a list" where
  "new_Set xs = foldl Set_add [] xs"

subsection \<open>Result shaping\<close>

definition getSearchCommentsTable :: "CommentSearchResult list \<Rightarrow> SearchCommentsTable list" where
  "getSearchCommentsTable searchResults =
     map (\<lambda>res. \<lparr>SearchCommentsTable.feedbackSession = CommentSearchResult.feedbackSession res,
                 SearchCommentsTable.questions = CommentSearchResult.questions res\<rparr>) searchResults"

definition getCoursesWithStudents :: "heap \<Rightarrow> ref list \<Rightarrow> SearchStudentsListRowTable list" where
  "getCoursesWithStudents h studs =
     (let distinctCourses = new_Set (map (\<lambda>s. Student.courseId (h s)) studs)
      in map (\<lambda>cid.
           \<lparr>SearchStudentsListRowTable.courseId = cid,
            SearchStudentsListRowTable.students =
              map (\<lambda>s. \<lparr>student = s,
                         isAllowedToViewStudentInSection = False,
                         isAllowedToModifyStudent = False\<rparr>)
                  (new_Set (filter (\<lambda>s. Student.courseId (h s) = cid) studs))\<rparr>)
         distinctCourses)"

subsection \<open>Observables and the search service\<close>

text \<open>
  Every observable of this component delivers at most one value. Its terminal behaviour
  is one of: a value followed by completion (\<open>Next\<close>), an error (\<open>Error\<close>), or
  completion with no value (\<open>Complete\<close>). An error carries either the backend's
  \<^verbatim>\<open>ErrorMessageOutput\<close> with its message, or the \<^verbatim>\<open>TypeError\<close> that
  \<^verbatim>\<open>forkJoin\<close> raises on an \<^verbatim>\<open>undefined\<close> source.
\<close>

datatype failure = ErrorMessageOutput string | TypeError

datatype 'a notification = Next 'a | Error failure | Complete

fun map_notification :: "('a \<Rightarrow> 'b) \<Rightarrow> 'a notification \<Rightarrow> 'b notification" where
  "map_notification f (Next v) = Next (f v)"
| "map_notification f (Error e) = Error e"
| "map_notification f Complete = Complete"

text \<open>
  The search service (\<^verbatim>\<open>search.service.ts\<close>) is not part of these sources: it is a
  parameter of the model. Each of its three operations answers a request either with a
  result or with a failure carrying a message (\<open>Inl\<close>). A privilege lookup is
  answered per call: the first argument of \<open>searchInstructorPrivilege\<close> is the number
  of lookups the running search has issued before this one, so that two calls with the
  same course and section may be answered differently, while every subscriber of the
  observable returned by one call observes the same answer.
\<close>

record SearchService =
  searchComment :: "string \<Rightarrow> string + InstructorSearchResult"
  searchInstructor :: "string \<Rightarrow> string + InstructorSearchResult"
  searchInstructorPrivilege :: "nat \<Rightarrow> string \<Rightarrow> string \<Rightarrow> string + InstructorPrivilege"

definition http :: "string + 'a \<Rightarrow> 'a notification" where
  "http r = (case r of Inl m \<Rightarrow> Error (ErrorMessageOutput m) | Inr v \<Rightarrow> Next v)"

text \<open>
  \<^verbatim>\<open>forkJoin\<close> delivers the list of all values once every source has delivered one. As
  soon as one source fails or completes without a value, it delivers that source's error
  or completion instead and drops the other sources; which of several such sources is
  the first depends on the order the responses arrive in. \<open>forkJoin\<close> is therefore the
  list of the notifications that can be delivered. With no source at all it completes.
\<close>

fun nexts :: "'a notification list \<Rightarrow> 'a list" where
  "nexts [] = []"
| "nexts (Next v # ns) = v # nexts ns"
| "nexts (Error e # ns) = nexts ns"
| "nexts (Complete # ns) = nexts ns"

fun stops :: "'a notification list \<Rightarrow> 'b notification list" where
  "stops [] = []"
| "stops (Next v # ns) = stops ns"
| "stops (Error e # ns) = Error e # stops ns"
| "stops (Complete # ns) = Complete # stops ns"

definition forkJoin :: "'a notification list \<Rightarrow> 'a list notification list" where
  "forkJoin sources =
     (if sources = [] then [Complete]
      else if stops sources = ([] :: 'a list notification list) then [Next (nexts sources)]
      else stops sources)"

text \<open>The same operator on a pair of sources of different types.\<close>

definition forkJoin2 :: "'a notification \<Rightarrow> 'b notification \<Rightarrow> ('a \<times> 'b) notification list" where
  "forkJoin2 a b =
     (case (a, b) of
        (Next x, Next y) \<Rightarrow> [Next (x, y)]
      | _ \<Rightarrow> stops [a] @ stops [b])"

subsection \<open>Privilege lookups\<close>

text \<open>
  A pending lookup, the observable returned by one call of
  \<^verbatim>\<open>searchService.searchInstructorPrivilege(courseId, section)\<close>: the number of lookups
  issued before it, and the two arguments of the call.
\<close>

type_synonym lookup = "nat \<times> string \<times> string"

text \<open>
  The inner \<^verbatim>\<open>forEach\<close> over the distinct sections of one course: each section issues
  one lookup and stores it in the record \<^verbatim>\<open>sectionToPrivileges\<close>.
\<close>

definition issueSection ::
  "string \<Rightarrow> lookup list \<times> (string \<rightharpoonup> lookup) \<Rightarrow> string \<Rightarrow> lookup list \<times> (string \<rightharpoonup> lookup)" where
  "issueSection cid st section =
     (let l = (length (fst st), cid, section)
      in (fst st @ [l], (snd st)(section \<mapsto> l)))"

text \<open>
  The body of the outer \<^verbatim>\<open>forEach\<close>: a fresh \<^verbatim>\<open>sectionToPrivileges\<close>, the lookups of
  the course's distinct sections, and then one entry of \<^verbatim>\<open>privileges\<close> per student row,
  read from the record (\<open>None\<close> where the record has no such key).
\<close>

definition privilegesOfCourse ::
  "heap \<Rightarrow> lookup list \<times> lookup option list \<Rightarrow> SearchStudentsListRowTable
     \<Rightarrow> lookup list \<times> lookup option list" where
  "privilegesOfCourse h st course =
     (let sectionOf = (\<lambda>studentModel. sectionName (h (student studentModel)));
          rows = SearchStudentsListRowTable.students course;
          issued = foldl (issueSection (SearchStudentsListRowTable.courseId course))
                     (fst st, Map.empty) (new_Set (map sectionOf rows));
          sectionToPrivileges = snd issued
      in (fst issued, snd st @ map (\<lambda>studentModel. sectionToPrivileges (sectionOf studentModel)) rows))"

text \<open>
  The lookups \<^verbatim>\<open>getPrivileges\<close> issues, in the order of the calls, and the array
  \<^verbatim>\<open>privileges\<close> it hands to \<^verbatim>\<open>forkJoin\<close>.
\<close>

definition privilegeRequests ::
  "heap \<Rightarrow> SearchStudentsListRowTable list \<Rightarrow> lookup list \<times> lookup option list" where
  "privilegeRequests h coursesWithStudents =
     (if coursesWithStudents = [] then ([], [])
      else foldl (privilegesOfCourse h) ([], []) coursesWithStudents)"

definition lookupSource :: "SearchService \<Rightarrow> lookup option \<Rightarrow> InstructorPrivilege notification" where
  "lookupSource svc entry =
     (case entry of
        None \<Rightarrow> Error TypeError
      | Some (n, cid, section) \<Rightarrow> http (searchInstructorPrivilege svc n cid section))"

definition getPrivileges ::
  "heap \<Rightarrow> SearchService \<Rightarrow> SearchStudentsListRowTable list \<Rightarrow> InstructorPrivilege list notification list" where
  "getPrivileges h svc coursesWithStudents =
     (if coursesWithStudents = [] then [Next []]
      else forkJoin (map (lookupSource svc) (snd (privilegeRequests h coursesWithStudents))))"

subsection \<open>Combining rows and privileges\<close>

text \<open>
  \<^verbatim>\<open>combinePrivileges\<close> assigns into the row objects of the tables it is given
  (lines 174-175), and a row object that is listed twice is one object. So here the row
  objects live in a store, and a table is given with the references of its row objects:
  two entries are the same object exactly when the references are equal.
\<close>

type_synonym rowRef = nat

type_synonym rowStore = "rowRef \<Rightarrow> StudentListRowModel"

record TableByRef =
  refCourseId :: string
  refStudents :: "rowRef list"

text \<open>
  \<^verbatim>\<open>privileges.shift()\<close> removes and returns the first element, or returns
  \<^verbatim>\<open>undefined\<close> on an empty array; then the row is skipped. The loops return the store
  and what is left of \<^verbatim>\<open>privileges\<close>.
\<close>

fun combineRows ::
  "rowStore \<Rightarrow> rowRef list \<Rightarrow> InstructorPrivilege list \<Rightarrow> rowStore \<times> InstructorPrivilege list" where
  "combineRows rows [] privileges = (rows, privileges)"
| "combineRows rows (studentModel # rest) [] = combineRows rows rest []"
| "combineRows rows (studentModel # rest) (sectionPrivileges # privileges) =
     combineRows
       (rows(studentModel :=
          (rows studentModel)
            \<lparr>isAllowedToViewStudentInSection := canViewStudentInSections sectionPrivileges,
             isAllowedToModifyStudent := canModifyStudent sectionPrivileges\<rparr>))
       rest privileges"

fun combineCourses ::
  "rowStore \<Rightarrow> TableByRef list \<Rightarrow> InstructorPrivilege list \<Rightarrow> rowStore \<times> InstructorPrivilege list" where
  "combineCourses rows [] privileges = (rows, privileges)"
| "combineCourses rows (course # rest) privileges =
     (let r = combineRows rows (refStudents course) privileges
      in combineCourses (fst r) rest (snd r))"

text \<open>The tables as they read in a store.\<close>

definition readTables :: "rowStore \<Rightarrow> TableByRef list \<Rightarrow> SearchStudentsListRowTable list" where
  "readTables rows tables =
     map (\<lambda>t. \<lparr>SearchStudentsListRowTable.courseId = refCourseId t,
                SearchStudentsListRowTable.students = map rows (refStudents t)\<rparr>) tables"

text \<open>
  \<^verbatim>\<open>combinePrivileges\<close> returns the tables it was given, after the loop: the store after
  the loop, and the result as it reads in that store.
\<close>

definition combinePrivileges ::
  "rowStore \<Rightarrow> TableByRef list \<times> InstructorPrivilege list
     \<Rightarrow> rowStore \<times> TransformedInstructorSearchResult" where
  "combinePrivileges rows res =
     (let rows' = fst (combineCourses rows (fst res) (snd res))
      in (rows',
          \<lparr>searchCommentTables = Some [],
           searchStudentTables = Some (readTables rows' (fst res))\<rparr>))"

text \<open>
  \<^verbatim>\<open>getCoursesWithStudents\<close> makes a new row object for every row of its result (the
  object literal of lines 129-133). \<open>rowsOf\<close> lists the rows of tables in the order of
  the two nested loops; \<open>storeOf\<close> and \<open>byRef\<close> put the rows of such a result
  into a store, each row at a reference of its own (its position in \<open>rowsOf\<close>). The
  other references of the store are never read; they hold the row \<open>newRow 0\<close>.
\<close>

definition newRow :: "ref \<Rightarrow> StudentListRowModel" where
  "newRow s = \<lparr>student = s, isAllowedToViewStudentInSection = False, isAllowedToModifyStudent = False\<rparr>"

definition rowsOf :: "SearchStudentsListRowTable list \<Rightarrow> StudentListRowModel list" where
  "rowsOf groups = concat (map SearchStudentsListRowTable.students groups)"

definition storeOf :: "SearchStudentsListRowTable list \<Rightarrow> rowStore" where
  "storeOf groups k = (if k < length (rowsOf groups) then rowsOf groups ! k else newRow 0)"

fun byRef :: "nat \<Rightarrow> SearchStudentsListRowTable list \<Rightarrow> TableByRef list" where
  "byRef n [] = []"
| "byRef n (course # rest) =
     \<lparr>refCourseId = SearchStudentsListRowTable.courseId course,
      refStudents = [n..<n + length (SearchStudentsListRowTable.students course)]\<rparr>
     # byRef (n + length (SearchStudentsListRowTable.students course)) rest"

subsection \<open>The page controller\<close>

datatype request =
  SearchComment string
| SearchInstructor string
| SearchInstructorPrivilege string string

datatype toast = WarningToast string | ErrorToast string

text \<open>
  One possible run of \<^verbatim>\<open>search()\<close>: what the joined observable delivered to the
  subscriber (\<open>None\<close> when \<^verbatim>\<open>search()\<close> returned before building it), the calls
  made to the search service's operations, in order, the component when everything has
  settled, and the notifications shown.
\<close>

record run =
  delivered :: "(TransformedInstructorSearchResult \<times> TransformedInstructorSearchResult) notification option"
  requests :: "request list"
  final :: InstructorSearchPageComponent
  toasts :: "toast list"

definition placeholder :: TransformedInstructorSearchResult where
  "placeholder = \<lparr>searchCommentTables = None, searchStudentTables = None\<rparr>"

text \<open>The first source of the outer \<^verbatim>\<open>forkJoin\<close>.\<close>

definition commentBranch :: "SearchService \<Rightarrow> SearchParams \<Rightarrow> TransformedInstructorSearchResult notification" where
  "commentBranch svc p =
     (if isSearchForComments p then
        map_notification
          (\<lambda>resp. \<lparr>searchCommentTables = Some (getSearchCommentsTable (comments resp)),
                    searchStudentTables = Some []\<rparr>)
          (http (searchComment svc (searchKey p)))
      else Next placeholder)"

text \<open>
  The second source: the lookups it issues once the student search has answered, and the
  notifications it can deliver. \<^verbatim>\<open>getPrivileges\<close> only reads the rows;
  \<^verbatim>\<open>combinePrivileges\<close> is given the row objects that \<^verbatim>\<open>getCoursesWithStudents\<close> has just
  made, and the result is delivered as it reads after the assignments.
\<close>

definition studentBranch ::
  "heap \<Rightarrow> SearchService \<Rightarrow> SearchParams
     \<Rightarrow> lookup list \<times> TransformedInstructorSearchResult notification list" where
  "studentBranch h svc p =
     (if isSearchForStudents p then
        (case searchInstructor svc (searchKey p) of
           Inl m \<Rightarrow> ([], [Error (ErrorMessageOutput m)])
         | Inr res \<Rightarrow>
             (let coursesWithStudents = getCoursesWithStudents h (InstructorSearchResult.students res)
              in (fst (privilegeRequests h coursesWithStudents),
                  map (map_notification
                         (\<lambda>res. snd (combinePrivileges (storeOf coursesWithStudents) res)))
                    (concat (map (forkJoin2 (Next (byRef 0 coursesWithStudents)))
                               (getPrivileges h svc coursesWithStudents))))))
      else ([], [Next placeholder]))"

text \<open>\<^verbatim>\<open>!!(x && x.length)\<close> for an array that may be \<^verbatim>\<open>undefined\<close>.\<close>

definition hasLength :: "'a list option \<Rightarrow> bool" where
  "hasLength x = (case x of None \<Rightarrow> False | Some xs \<Rightarrow> xs \<noteq> [])"

text \<open>The subscriber's first callback.\<close>

definition onNext ::
  "InstructorSearchPageComponent
     \<Rightarrow> TransformedInstructorSearchResult \<times> TransformedInstructorSearchResult
     \<Rightarrow> InstructorSearchPageComponent \<times> toast list" where
  "onNext this resp =
     (let this1 = this\<lparr>commentTables := searchCommentTables (fst resp)\<rparr>;
          searchStudentsTable = searchStudentTables (snd resp);
          hasStudents = hasLength searchStudentsTable;
          hasComments = hasLength (commentTables this1);
          this2 = (case searchStudentsTable of
                     Some t \<Rightarrow> if hasStudents then this1\<lparr>studentsListRowTables := t\<rparr> else this1
                   | None \<Rightarrow> this1)
      in (this2, if \<not> hasStudents \<and> \<not> hasComments then [WarningToast ''No results found.''] else []))"

text \<open>
  The subscriber's second callback reads \<^verbatim>\<open>resp.error.message\<close>; on a
  \<^verbatim>\<open>TypeError\<close>, which has no field \<^verbatim>\<open>error\<close>, that read throws and no toast is shown.
\<close>

definition onError :: "failure \<Rightarrow> toast list" where
  "onError resp = (case resp of ErrorMessageOutput m \<Rightarrow> [ErrorToast m] | TypeError \<Rightarrow> [])"

text \<open>
  The subscriber with \<^verbatim>\<open>finalize\<close>: the callback for the notification, then
  \<^verbatim>\<open>isSearching = false\<close>.
\<close>

definition subscribe ::
  "InstructorSearchPageComponent
     \<Rightarrow> request list \<times> (TransformedInstructorSearchResult \<times> TransformedInstructorSearchResult) notification
     \<Rightarrow> run" where
  "subscribe this rn =
     (case snd rn of
        Next resp \<Rightarrow>
          \<lparr>delivered = Some (snd rn), requests = fst rn,
           final = (fst (onNext this resp))\<lparr>isSearching := False\<rparr>,
           toasts = snd (onNext this resp)\<rparr>
      | Error e \<Rightarrow>
          \<lparr>delivered = Some (snd rn), requests = fst rn,
           final = this\<lparr>isSearching := False\<rparr>, toasts = onError e\<rparr>
      | Complete \<Rightarrow>
          \<lparr>delivered = Some (snd rn), requests = fst rn,
           final = this\<lparr>isSearching := False\<rparr>, toasts = []\<rparr>)"

text \<open>
  The outer \<^verbatim>\<open>forkJoin\<close> subscribes to both sources at once, which sends the comment and
  the student search requests. The privilege lookups are sent when the student search
  answers, unless the comment search has failed before: that failure ends the whole
  subscription, and the lookups are never issued (the first part of the list). Each
  element is the requests sent and the notification delivered in one possible order of
  arrival.
\<close>

definition joined ::
  "heap \<Rightarrow> SearchService \<Rightarrow> SearchParams
     \<Rightarrow> (request list \<times> (TransformedInstructorSearchResult \<times> TransformedInstructorSearchResult) notification) list" where
  "joined h svc p =
     (let sent = (if isSearchForComments p then [SearchComment (searchKey p)] else [])
                 @ (if isSearchForStudents p then [SearchInstructor (searchKey p)] else []);
          c = commentBranch svc p;
          s = studentBranch h svc p;
          lookups = map (\<lambda>l. SearchInstructorPrivilege (fst (snd l)) (snd (snd l))) (fst s)
      in map (Pair sent) (stops [c])
         @ map (Pair (sent @ lookups)) (concat (map (forkJoin2 c) (snd s))))"

definition search :: "heap \<Rightarrow> SearchService \<Rightarrow> InstructorSearchPageComponent \<Rightarrow> run list" where
  "search h svc this =
     (if \<not> (isSearchForComments (searchParams this) \<or> isSearchForStudents (searchParams this))
         \<or> searchKey (searchParams this) = ''''
      then [\<lparr>delivered = None, requests = [], final = this, toasts = []\<rparr>]
      else map (subscribe (this\<lparr>isSearching := True\<rparr>)) (joined h svc (searchParams this)))"

subsection \<open>Vocabulary of the properties\<close>

text \<open>
  The definitions of this subsection are not part of the component; the theorems below
  are stated with them.

  \<open>firstSeen x xs\<close> is the position of the first occurrence of \<open>x\<close> in \<open>xs\<close> (the
  length of \<open>xs\<close> when there is none).
\<close>

definition firstSeen :: "'a \<Rightarrow> 'a list \<Rightarrow> nat" where
  "firstSeen x xs = length (takeWhile (\<lambda>y. y \<noteq> x) xs)"

text \<open>A row with the two flags of a privilege.\<close>

definition withPrivilege :: "StudentListRowModel \<Rightarrow> InstructorPrivilege \<Rightarrow> StudentListRowModel" where
  "withPrivilege r p =
     r\<lparr>isAllowedToViewStudentInSection := canViewStudentInSections p,
       isAllowedToModifyStudent := canModifyStudent p\<rparr>"

text \<open>
  All row references of tables in the order of the two nested loops, and the assignment
  of a privilege's flags to the row object at a reference.
\<close>

definition refsOf :: "TableByRef list \<Rightarrow> rowRef list" where
  "refsOf tables = concat (map refStudents tables)"

definition assignPrivilege :: "rowStore \<Rightarrow> rowRef \<times> InstructorPrivilege \<Rightarrow> rowStore" where
  "assignPrivilege rows kp = rows(fst kp := withPrivilege (rows (fst kp)) (snd kp))"

text \<open>
  The section of a row, the distinct sections of a course group in first-seen order, the
  pairs of course id and section that are looked up for one group and for a list of
  groups, and the first issued lookup for a pair.
\<close>

definition sectionOf :: "heap \<Rightarrow> StudentListRowModel \<Rightarrow> string" where
  "sectionOf h r = sectionName (h (student r))"

definition sectionsOf :: "heap \<Rightarrow> SearchStudentsListRowTable \<Rightarrow> string list" where
  "sectionsOf h g = new_Set (map (sectionOf h) (SearchStudentsListRowTable.students g))"

definition pairsOf :: "heap \<Rightarrow> SearchStudentsListRowTable \<Rightarrow> (string \<times> string) list" where
  "pairsOf h g = map (Pair (SearchStudentsListRowTable.courseId g)) (sectionsOf h g)"

definition allPairs :: "heap \<Rightarrow> SearchStudentsListRowTable list \<Rightarrow> (string \<times> string) list" where
  "allPairs h cws = concat (map (pairsOf h) cws)"

definition lookupFor :: "lookup list \<Rightarrow> string \<Rightarrow> string \<Rightarrow> lookup option" where
  "lookupFor issued cid section = List.find (\<lambda>l. snd l = (cid, section)) issued"


text \<open>
  The messages of the failing remote calls among those a search issues: the comment
  search when comments are searched, the student search when students are searched, and,
  when the student search succeeds, the privilege lookups issued for its result.
\<close>

definition lookupFailures :: "SearchService \<Rightarrow> lookup list \<Rightarrow> string list" where
  "lookupFailures svc issued =
     concat (map (\<lambda>l. case searchInstructorPrivilege svc (fst l) (fst (snd l)) (snd (snd l)) of
                         Inl m \<Rightarrow> [m] | Inr p \<Rightarrow> []) issued)"

definition commentFailures :: "SearchService \<Rightarrow> SearchParams \<Rightarrow> string list" where
  "commentFailures svc p =
     (if isSearchForComments p then
        (case searchComment svc (searchKey p) of Inl m \<Rightarrow> [m] | Inr res \<Rightarrow> [])
      else [])"

definition studentFailures :: "heap \<Rightarrow> SearchService \<Rightarrow> SearchParams \<Rightarrow> string list" where
  "studentFailures h svc p =
     (if isSearchForStudents p then
        (case searchInstructor svc (searchKey p) of
           Inl m \<Rightarrow> [m]
         | Inr res \<Rightarrow>
             lookupFailures svc
               (fst (privilegeRequests h (getCoursesWithStudents h (InstructorSearchResult.students res)))))
      else [])"

definition failures :: "heap \<Rightarrow> SearchService \<Rightarrow> SearchParams \<Rightarrow> string list" where
  "failures h svc p = commentFailures svc p @ studentFailures h svc p"

subsection \<open>Example inputs\<close>

text \<open>
  Three student objects: 1 and 2 have equal fields (course C1, section S1) and are
  different objects, 3 is in course C2, section S2. The service \<open>exService\<close> finds
  the three students and one comment, \<open>exQuietService\<close> finds nothing, and
  \<open>exFailingService\<close> fails the second privilege lookup.
\<close>

definition exHeap :: heap where
  "exHeap r = (if r = 3 then \<lparr>Student.courseId = ''C2'', sectionName = ''S2'', name = ''Carol''\<rparr>
               else \<lparr>Student.courseId = ''C1'', sectionName = ''S1'', name = ''Alice''\<rparr>)"

definition exComments :: "CommentSearchResult list" where
  "exComments = [\<lparr>CommentSearchResult.feedbackSession = ''midterm'', CommentSearchResult.questions = ''q1''\<rparr>]"

definition exService :: SearchService where
  "exService =
     \<lparr>searchComment = (\<lambda>k. Inr \<lparr>InstructorSearchResult.students = [], comments = exComments\<rparr>),
      searchInstructor = (\<lambda>k. Inr \<lparr>InstructorSearchResult.students = [1, 2, 3], comments = []\<rparr>),
      searchInstructorPrivilege =
        (\<lambda>n cid section. Inr \<lparr>canViewStudentInSections = True, canModifyStudent = (n = 1)\<rparr>)\<rparr>"

definition exQuietService :: SearchService where
  "exQuietService =
     \<lparr>searchComment = (\<lambda>k. Inr \<lparr>InstructorSearchResult.students = [], comments = []\<rparr>),
      searchInstructor = (\<lambda>k. Inr \<lparr>InstructorSearchResult.students = [], comments = []\<rparr>),
      searchInstructorPrivilege =
        (\<lambda>n cid section. Inr \<lparr>canViewStudentInSections = True, canModifyStudent = True\<rparr>)\<rparr>"

definition exFailingService :: SearchService where
  "exFailingService =
     \<lparr>searchComment = (\<lambda>k. Inr \<lparr>InstructorSearchResult.students = [], comments = exComments\<rparr>),
      searchInstructor = (\<lambda>k. Inr \<lparr>InstructorSearchResult.students = [1, 2, 3], comments = []\<rparr>),
      searchInstructorPrivilege =
        (\<lambda>n cid section. if n = 1 then Inl ''lookup failed''
           else Inr \<lparr>canViewStudentInSections = True, canModifyStudent = True\<rparr>)\<rparr>"

definition exCommentTables :: "SearchCommentsTable list" where
  "exCommentTables = [\<lparr>SearchCommentsTable.feedbackSession = ''midterm'', SearchCommentsTable.questions = ''q1''\<rparr>]"

definition exTables :: "SearchStudentsListRowTable list" where
  "exTables =
     [\<lparr>SearchStudentsListRowTable.courseId = ''C1'',
       students = [\<lparr>student = 1, isAllowedToViewStudentInSection = True, isAllowedToModifyStudent = False\<rparr>,
                   \<lparr>student = 2, isAllowedToViewStudentInSection = True, isAllowedToModifyStudent = False\<rparr>]\<rparr>,
      \<lparr>SearchStudentsListRowTable.courseId = ''C2'',
       students = [\<lparr>student = 3, isAllowedToViewStudentInSection = True, isAllowedToModifyStudent = True\<rparr>]\<rparr>]"

definition exStudentSearch :: InstructorSearchPageComponent where
  "exStudentSearch =
     \<lparr>searchParams = \<lparr>searchKey = ''alice'', isSearchForStudents = True, isSearchForComments = False\<rparr>,
      studentsListRowTables = [], commentTables = Some exCommentTables, isSearching = False\<rparr>"

definition exCommentSearch :: InstructorSearchPageComponent where
  "exCommentSearch =
     \<lparr>searchParams = \<lparr>searchKey = ''alice'', isSearchForStudents = False, isSearchForComments = True\<rparr>,
      studentsListRowTables = exTables, commentTables = None, isSearching = False\<rparr>"

definition exBothSearch :: InstructorSearchPageComponent where
  "exBothSearch =
     \<lparr>searchParams = \<lparr>searchKey = ''alice'', isSearchForStudents = True, isSearchForComments = True\<rparr>,
      studentsListRowTables = [], commentTables = Some [], isSearching = False\<rparr>"

definition exStudentRun :: run where
  "exStudentRun =
     \<lparr>delivered = Some (Next (placeholder,
                              \<lparr>searchCommentTables = Some [], searchStudentTables = Some exTables\<rparr>)),
      requests = [SearchInstructor ''alice'', SearchInstructorPrivilege ''C1'' ''S1'',
                  SearchInstructorPrivilege ''C2'' ''S2''],
      final = \<lparr>searchParams = \<lparr>searchKey = ''alice'', isSearchForStudents = True, isSearchForComments = False\<rparr>,
               studentsListRowTables = exTables, commentTables = None, isSearching = False\<rparr>,
      toasts = []\<rparr>"

definition exCommentRun :: run where
  "exCommentRun =
     \<lparr>delivered = Some (Next (\<lparr>searchCommentTables = Some exCommentTables, searchStudentTables = Some []\<rparr>,
                              placeholder)),
      requests = [SearchComment ''alice''],
      final = \<lparr>searchParams = \<lparr>searchKey = ''alice'', isSearchForStudents = False, isSearchForComments = True\<rparr>,
               studentsListRowTables = exTables, commentTables = Some exCommentTables, isSearching = False\<rparr>,
      toasts = []\<rparr>"

definition exQuietCommentRun :: run where
  "exQuietCommentRun =
     \<lparr>delivered = Some (Next (\<lparr>searchCommentTables = Some [], searchStudentTables = Some []\<rparr>,
                              placeholder)),
      requests = [SearchComment ''alice''],
      final = \<lparr>searchParams = \<lparr>searchKey = ''alice'', isSearchForStudents = False, isSearchForComments = True\<rparr>,
               studentsListRowTables = exTables, commentTables = Some [], isSearching = False\<rparr>,
      toasts = [WarningToast ''No results found.'']\<rparr>"

definition exQuietBothRun :: run where
  "exQuietBothRun =
     \<lparr>delivered = Some (Next (\<lparr>searchCommentTables = Some [], searchStudentTables = Some []\<rparr>,
                              \<lparr>searchCommentTables = Some [], searchStudentTables = Some []\<rparr>)),
      requests = [SearchComment ''alice'', SearchInstructor ''alice''],
      final = \<lparr>searchParams = \<lparr>searchKey = ''alice'', isSearchForStudents = True, isSearchForComments = True\<rparr>,
               studentsListRowTables = [], commentTables = Some [], isSearching = False\<rparr>,
      toasts = [WarningToast ''No results found.'']\<rparr>"





definition exGroupC1 :: SearchStudentsListRowTable where
  "exGroupC1 = \<lparr>SearchStudentsListRowTable.courseId = ''C1'', students = [newRow 1, newRow 2]\<rparr>"

definition exEmptyKey :: InstructorSearchPageComponent where
  "exEmptyKey =
     \<lparr>searchParams = \<lparr>searchKey = '''', isSearchForStudents = True, isSearchForComments = True\<rparr>,
      studentsListRowTables = exTables, commentTables = Some exCommentTables, isSearching = True\<rparr>"

definition exBlankKey :: InstructorSearchPageComponent where
  "exBlankKey =
     \<lparr>searchParams = \<lparr>searchKey = '' '', isSearchForStudents = True, isSearchForComments = True\<rparr>,
      studentsListRowTables = exTables, commentTables = Some exCommentTables, isSearching = True\<rparr>"

definition exFailingRun :: run where
  "exFailingRun =
     \<lparr>delivered = Some (Error (ErrorMessageOutput ''lookup failed'')),
      requests = [SearchInstructor ''alice'', SearchInstructorPrivilege ''C1'' ''S1'',
                  SearchInstructorPrivilege ''C2'' ''S2''],
      final = exStudentSearch, toasts = [ErrorToast ''lookup failed'']\<rparr>"

section \<open>Properties\<close>

subsection \<open>The examples, evaluated\<close>

lemma search_exStudentSearch: "search exHeap exService exStudentSearch = [exStudentRun]"
  by code_simp

lemma search_exCommentSearch: "search exHeap exService exCommentSearch = [exCommentRun]"
  by code_simp

lemma search_exQuietComment: "search exHeap exQuietService exCommentSearch = [exQuietCommentRun]"
  by code_simp

lemma search_exQuietBoth: "search exHeap exQuietService exBothSearch = [exQuietBothRun]"
  by code_simp

lemma search_exFailingService: "search exHeap exFailingService exStudentSearch = [exFailingRun]"
  by code_simp

subsection \<open>Sets in insertion order and the grouping by course\<close>

lemma new_Set_Nil: "new_Set [] = []"
  by (simp add: new_Set_def)

lemma new_Set_snoc: "new_Set (xs @ [x]) = Set_add (new_Set xs) x"
  by (simp add: new_Set_def)

lemma set_new_Set: "set (new_Set xs) = set xs"
  by (induction xs rule: rev_induct) (auto simp: new_Set_Nil new_Set_snoc Set_add_def)

lemma distinct_new_Set: "distinct (new_Set xs)"
  by (induction xs rule: rev_induct) (auto simp: new_Set_Nil new_Set_snoc Set_add_def)

lemma new_Set_eq_Nil: "new_Set xs = [] \<longleftrightarrow> xs = []"
  using set_new_Set [of xs] by (metis set_empty)

lemma firstSeen_append_mem: "a \<in> set xs \<Longrightarrow> firstSeen a (xs @ ys) = firstSeen a xs"
  by (simp add: firstSeen_def takeWhile_append1)

lemma firstSeen_less: "a \<in> set xs \<Longrightarrow> firstSeen a xs < length xs"
  unfolding firstSeen_def by (induction xs) auto

lemma firstSeen_snoc_new: "x \<notin> set xs \<Longrightarrow> firstSeen x (xs @ [x]) = length xs"
  unfolding firstSeen_def by (induction xs) auto

lemma new_Set_filter_sorted:
  "sorted_wrt (\<lambda>a b. firstSeen a xs < firstSeen b xs) (new_Set (filter P xs))"
proof (induction xs rule: rev_induct)
  case Nil
  show ?case by (simp add: new_Set_Nil)
next
  case (snoc x xs)
  let ?ys = "new_Set (filter P xs)"
  have sub: "set ?ys \<subseteq> set xs" by (auto simp: set_new_Set)
  have old: "sorted_wrt (\<lambda>a b. firstSeen a (xs @ [x]) < firstSeen b (xs @ [x])) ?ys"
  proof (rule sorted_wrt_mono_rel [OF _ snoc.IH])
    fix a b
    assume "a \<in> set ?ys" "b \<in> set ?ys" "firstSeen a xs < firstSeen b xs"
    then show "firstSeen a (xs @ [x]) < firstSeen b (xs @ [x])"
      using sub by (simp add: firstSeen_append_mem subset_iff)
  qed
  show ?case
  proof (cases "P x \<and> x \<notin> set ?ys")
    case False
    then show ?thesis using old by (auto simp: new_Set_snoc Set_add_def)
  next
    case True
    then have nx: "x \<notin> set xs" by (auto simp: set_new_Set)
    have "\<forall>a\<in>set ?ys. firstSeen a (xs @ [x]) < firstSeen x (xs @ [x])"
    proof
      fix a assume "a \<in> set ?ys"
      then have "a \<in> set xs" using sub by blast
      then show "firstSeen a (xs @ [x]) < firstSeen x (xs @ [x])"
        using nx by (simp add: firstSeen_append_mem firstSeen_snoc_new firstSeen_less)
    qed
    then show ?thesis using old True
      by (simp add: new_Set_snoc Set_add_def sorted_wrt_append)
  qed
qed

lemma new_Set_sorted: "sorted_wrt (\<lambda>a b. firstSeen a xs < firstSeen b xs) (new_Set xs)"
  using new_Set_filter_sorted [of xs "\<lambda>_. True"] by simp

lemma getCoursesWithStudents_alt:
  "getCoursesWithStudents h studs =
     map (\<lambda>cid. \<lparr>SearchStudentsListRowTable.courseId = cid,
                  SearchStudentsListRowTable.students =
                    map newRow (new_Set (filter (\<lambda>s. Student.courseId (h s) = cid) studs))\<rparr>)
       (new_Set (map (\<lambda>s. Student.courseId (h s)) studs))"
  by (simp add: getCoursesWithStudents_def newRow_def)

lemma courseIds_getCoursesWithStudents:
  "map SearchStudentsListRowTable.courseId (getCoursesWithStudents h studs) =
     new_Set (map (\<lambda>s. Student.courseId (h s)) studs)"
  by (simp add: getCoursesWithStudents_alt o_def)

lemma group_students:
  assumes "g \<in> set (getCoursesWithStudents h studs)"
  shows "map student (SearchStudentsListRowTable.students g) =
           new_Set (filter (\<lambda>s. Student.courseId (h s) = SearchStudentsListRowTable.courseId g) studs)"
    and "SearchStudentsListRowTable.students g = map newRow (map student (SearchStudentsListRowTable.students g))"
  using assms by (auto simp: getCoursesWithStudents_alt o_def newRow_def)

text \<open>
  C7: \<^verbatim>\<open>getCoursesWithStudents\<close> preserves order. The course ids of the groups are
  pairwise distinct, they are the course ids of the input, and they stand in the order of
  their first occurrences in the input. In every group the rows hold the students of that
  course, each once, in the order of their first occurrences in the input, and both flags
  of every row are false.
\<close>

theorem getCoursesWithStudents_order_preserving:
  "distinct (map SearchStudentsListRowTable.courseId (getCoursesWithStudents h studs))
   \<and> set (map SearchStudentsListRowTable.courseId (getCoursesWithStudents h studs))
       = set (map (\<lambda>s. Student.courseId (h s)) studs)
   \<and> sorted_wrt (\<lambda>c d. firstSeen c (map (\<lambda>s. Student.courseId (h s)) studs)
                        < firstSeen d (map (\<lambda>s. Student.courseId (h s)) studs))
       (map SearchStudentsListRowTable.courseId (getCoursesWithStudents h studs))
   \<and> (\<forall>g \<in> set (getCoursesWithStudents h studs).
         distinct (map student (SearchStudentsListRowTable.students g))
       \<and> set (map student (SearchStudentsListRowTable.students g))
           = {s \<in> set studs. Student.courseId (h s) = SearchStudentsListRowTable.courseId g}
       \<and> sorted_wrt (\<lambda>s t. firstSeen s studs < firstSeen t studs)
           (map student (SearchStudentsListRowTable.students g))
       \<and> (\<forall>r \<in> set (SearchStudentsListRowTable.students g).
             \<not> isAllowedToViewStudentInSection r \<and> \<not> isAllowedToModifyStudent r))"
proof (intro conjI ballI)
  show "distinct (map SearchStudentsListRowTable.courseId (getCoursesWithStudents h studs))"
    by (simp only: courseIds_getCoursesWithStudents distinct_new_Set)
  show "set (map SearchStudentsListRowTable.courseId (getCoursesWithStudents h studs))
          = set (map (\<lambda>s. Student.courseId (h s)) studs)"
    by (simp only: courseIds_getCoursesWithStudents set_new_Set)
  show "sorted_wrt (\<lambda>c d. firstSeen c (map (\<lambda>s. Student.courseId (h s)) studs)
                        < firstSeen d (map (\<lambda>s. Student.courseId (h s)) studs))
       (map SearchStudentsListRowTable.courseId (getCoursesWithStudents h studs))"
    by (simp only: courseIds_getCoursesWithStudents new_Set_sorted)
next
  fix g assume g: "g \<in> set (getCoursesWithStudents h studs)"
  show "distinct (map student (SearchStudentsListRowTable.students g))"
    by (simp only: group_students(1) [OF g] distinct_new_Set)
  show "set (map student (SearchStudentsListRowTable.students g))
           = {s \<in> set studs. Student.courseId (h s) = SearchStudentsListRowTable.courseId g}"
    by (simp only: group_students(1) [OF g] set_new_Set set_filter)
  show "sorted_wrt (\<lambda>s t. firstSeen s studs < firstSeen t studs)
           (map student (SearchStudentsListRowTable.students g))"
    by (simp only: group_students(1) [OF g] new_Set_filter_sorted)
  fix r assume "r \<in> set (SearchStudentsListRowTable.students g)"
  then have "r \<in> set (map newRow (map student (SearchStudentsListRowTable.students g)))"
    using group_students(2) [OF g] by simp
  then show "\<not> isAllowedToViewStudentInSection r" and "\<not> isAllowedToModifyStudent r"
    by (auto simp: newRow_def)
qed

theorem getCoursesWithStudents_order_preserving_witness:
  "exGroupC1 \<in> set (getCoursesWithStudents exHeap [1, 2, 3, 1])
   \<and> map SearchStudentsListRowTable.courseId (getCoursesWithStudents exHeap [1, 2, 3, 1]) = [''C1'', ''C2'']
   \<and> map student (SearchStudentsListRowTable.students exGroupC1) = [1, 2]
   \<and> distinct (map student (SearchStudentsListRowTable.students exGroupC1))
   \<and> sorted_wrt (\<lambda>s t. firstSeen s [1, 2, 3, 1 :: nat] < firstSeen t [1, 2, 3, 1])
        (map student (SearchStudentsListRowTable.students exGroupC1))"
proof -
  have g: "exGroupC1 \<in> set (getCoursesWithStudents exHeap [1, 2, 3, 1])"
    by code_simp
  have c: "map SearchStudentsListRowTable.courseId (getCoursesWithStudents exHeap [1, 2, 3, 1]) = [''C1'', ''C2'']"
    by code_simp
  have s: "map student (SearchStudentsListRowTable.students exGroupC1) = [1, 2]"
    by code_simp
  show ?thesis
    using g c s getCoursesWithStudents_order_preserving [of exHeap "[1, 2, 3, 1]"] by blast
qed

lemma student_newRow: "student (newRow s) = s"
  by (simp add: newRow_def)

lemma length_filter_eq_distinct:
  "distinct ys \<Longrightarrow> length (filter (\<lambda>x. x = s) ys) = (if s \<in> set ys then 1 else 0)"
  by (induction ys) auto

lemma distinct_if_count_le_1:
  "(\<And>s. length (filter (\<lambda>x. x = s) ys) \<le> 1) \<Longrightarrow> distinct ys"
proof (induction ys)
  case Nil
  show ?case by simp
next
  case (Cons y ys)
  have "length (filter (\<lambda>x. x = y) (y # ys)) \<le> 1" by (rule Cons.prems)
  then have "filter (\<lambda>x. x = y) ys = []" by simp
  then have ny: "y \<notin> set ys" by (auto simp: filter_empty_conv)
  have "length (filter (\<lambda>x. x = s) ys) \<le> 1" for s
    using Cons.prems [of s] by (simp split: if_splits)
  then have "distinct ys" by (rule Cons.IH)
  with ny show ?case by simp
qed

lemma count_rows_group:
  "length (filter (\<lambda>x. x = s) (new_Set (filter (\<lambda>s. Student.courseId (h s) = cid) studs)))
    = (if s \<in> set studs \<and> Student.courseId (h s) = cid then 1 else 0)"
  by (simp add: length_filter_eq_distinct distinct_new_Set set_new_Set)

lemma sum_list_delta:
  "distinct cs \<Longrightarrow> sum_list (map (\<lambda>c. if P \<and> k = c then (1::nat) else 0) cs) = (if P \<and> k \<in> set cs then 1 else 0)"
  by (induction cs) auto

lemma count_rows:
  "length (filter (\<lambda>r. student r = s) (rowsOf (getCoursesWithStudents h studs)))
     = (if s \<in> set studs then 1 else 0)"
proof -
  have "length (filter (\<lambda>r. student r = s) (rowsOf (getCoursesWithStudents h studs)))
      = sum_list (map (\<lambda>cid. if s \<in> set studs \<and> Student.courseId (h s) = cid then (1::nat) else 0)
                   (new_Set (map (\<lambda>s. Student.courseId (h s)) studs)))"
    by (simp add: rowsOf_def getCoursesWithStudents_alt filter_concat length_concat o_def
          filter_map student_newRow count_rows_group)
  also have "\<dots> = (if s \<in> set studs \<and> Student.courseId (h s) \<in> set (new_Set (map (\<lambda>s. Student.courseId (h s)) studs)) then 1 else 0)"
    by (rule sum_list_delta) (rule distinct_new_Set)
  finally show ?thesis by (auto simp: set_new_Set)
qed

lemma rowsOf_nonempty:
  assumes "studs \<noteq> []"
  shows "rowsOf (getCoursesWithStudents h studs) \<noteq> []"
proof
  assume e: "rowsOf (getCoursesWithStudents h studs) = []"
  from assms obtain s where "s \<in> set studs" by (cases studs) auto
  then have "length (filter (\<lambda>r. student r = s) (rowsOf (getCoursesWithStudents h studs))) = 1"
    by (simp add: count_rows)
  then show False by (simp add: e)
qed

text \<open>
  C8: the grouping makes one row per student object. Whatever the input, no student
  reference occurs in two rows, the references in the rows are exactly those of the
  input, and each reference of the input has exactly one row, whether it occurs once or
  several times; two different references, even to students with equal fields, get one
  row each.
\<close>

theorem getCoursesWithStudents_dedup_by_identity:
  "distinct (map student (rowsOf (getCoursesWithStudents h studs)))
   \<and> set (map student (rowsOf (getCoursesWithStudents h studs))) = set studs
   \<and> (\<forall>s \<in> set studs.
        length (filter (\<lambda>r. student r = s) (rowsOf (getCoursesWithStudents h studs))) = 1)"
proof -
  let ?L = "map student (rowsOf (getCoursesWithStudents h studs))"
  have cl: "length (filter (\<lambda>x. x = s) ?L) = (if s \<in> set studs then 1 else 0)" for s
    using count_rows [of s h studs] by (simp add: filter_map o_def)
  have d: "distinct ?L"
  proof (rule distinct_if_count_le_1)
    fix s show "length (filter (\<lambda>x. x = s) ?L) \<le> 1"
      unfolding cl by simp
  qed
  have m: "s \<in> set ?L \<longleftrightarrow> s \<in> set studs" for s
  proof -
    have "(if s \<in> set ?L then 1 else 0::nat) = (if s \<in> set studs then 1 else 0)"
      by (rule trans [OF length_filter_eq_distinct [OF d, of s, symmetric] cl [of s]])
    then show ?thesis by (metis zero_neq_one)
  qed
  have e: "set ?L = set studs"
    using m by blast
  show ?thesis using d e by (simp add: count_rows)
qed

theorem getCoursesWithStudents_dedup_by_identity_witness:
  "exHeap 1 = exHeap 2
   \<and> 1 \<in> set [1, 2, 3, 1 :: nat] \<and> 2 \<in> set [1, 2, 3, 1 :: nat]
   \<and> length (filter (\<lambda>r. student r = 1) (rowsOf (getCoursesWithStudents exHeap [1, 2, 3, 1]))) = 1
   \<and> length (filter (\<lambda>r. student r = 2) (rowsOf (getCoursesWithStudents exHeap [1, 2, 3, 1]))) = 1
   \<and> map student (rowsOf (getCoursesWithStudents exHeap [1, 2, 3, 1])) = [1, 2, 3]"
proof -
  have e: "exHeap 1 = exHeap 2" by (simp add: exHeap_def)
  have r: "map student (rowsOf (getCoursesWithStudents exHeap [1, 2, 3, 1])) = [1, 2, 3]"
    by code_simp
  show ?thesis
    using getCoursesWithStudents_dedup_by_identity [of exHeap "[1, 2, 3, 1]"] e r by simp
qed

subsection \<open>The positional merge\<close>

lemma zip_take_right: "zip xs (take (length xs) ys) = zip xs ys"
  by (induction xs ys rule: list_induct2') auto

lemma combineRows_Nil: "combineRows rows refs [] = (rows, [])"
  by (induction refs) simp_all

lemma combineRows_eq:
  "combineRows rows refs ps = (foldl assignPrivilege rows (zip refs ps), drop (length refs) ps)"
proof (induction rows refs ps rule: combineRows.induct)
  case (1 rows privileges)
  show ?case by simp
next
  case (2 rows studentModel rest)
  show ?case by (simp add: combineRows_Nil)
next
  case (3 rows studentModel rest sectionPrivileges privileges)
  have e: "rows(studentModel :=
             (rows studentModel)
               \<lparr>isAllowedToViewStudentInSection := canViewStudentInSections sectionPrivileges,
                isAllowedToModifyStudent := canModifyStudent sectionPrivileges\<rparr>)
           = assignPrivilege rows (studentModel, sectionPrivileges)"
    by (simp add: assignPrivilege_def withPrivilege_def)
  from 3 show ?case by (simp add: e)
qed

lemma combineCourses_eq:
  "combineCourses rows tables ps
     = (foldl assignPrivilege rows (zip (refsOf tables) ps), drop (length (refsOf tables)) ps)"
proof (induction tables arbitrary: rows ps)
  case Nil
  show ?case by (simp add: refsOf_def)
next
  case (Cons t tables)
  have z: "zip (refStudents t @ refsOf tables) ps
             = zip (refStudents t) ps @ zip (refsOf tables) (drop (length (refStudents t)) ps)"
    by (simp add: zip_append1 zip_take_right)
  have r: "refsOf (t # tables) = refStudents t @ refsOf tables"
    by (simp add: refsOf_def)
  show ?case
    by (simp add: Let_def combineRows_eq Cons.IH r z add.commute)
qed

lemma withPrivilege_twice: "withPrivilege (withPrivilege r q) p = withPrivilege r p"
  by (simp add: withPrivilege_def)

lemma student_withPrivilege: "student (withPrivilege r p) = student r"
  by (simp add: withPrivilege_def)

lemma flags_withPrivilege:
  "isAllowedToViewStudentInSection (withPrivilege r p) = canViewStudentInSections p"
  "isAllowedToModifyStudent (withPrivilege r p) = canModifyStudent p"
  by (simp_all add: withPrivilege_def)

lemma assign_other: "k \<notin> fst ` set zs \<Longrightarrow> foldl assignPrivilege rows zs k = rows k"
  by (induction zs arbitrary: rows) (auto simp: assignPrivilege_def)


lemma assign_then_withPrivilege:
  "withPrivilege (foldl assignPrivilege rows zs k) p = withPrivilege (rows k) p"
  by (induction zs arbitrary: rows) (simp_all add: assignPrivilege_def withPrivilege_twice)

lemma assign_last:
  assumes "k \<notin> fst ` set bs"
  shows "foldl assignPrivilege rows (as @ (k, p) # bs) k = withPrivilege (rows k) p"
proof -
  have "foldl assignPrivilege rows (as @ (k, p) # bs) k
      = foldl assignPrivilege (assignPrivilege (foldl assignPrivilege rows as) (k, p)) bs k"
    by simp
  also have "\<dots> = assignPrivilege (foldl assignPrivilege rows as) (k, p) k"
    by (rule assign_other [OF assms])
  also have "\<dots> = withPrivilege (foldl assignPrivilege rows as k) p"
    by (simp add: assignPrivilege_def)
  also have "\<dots> = withPrivilege (rows k) p"
    by (rule assign_then_withPrivilege)
  finally show ?thesis .
qed








lemma rowsOf_readTables: "rowsOf (readTables rows tables) = map rows (refsOf tables)"
  by (simp add: rowsOf_def readTables_def refsOf_def map_concat o_def)

lemma refsOf_byRef: "refsOf (byRef n cws) = [n..<n + length (rowsOf cws)]"
proof (induction cws arbitrary: n)
  case Nil
  show ?case by (simp add: refsOf_def rowsOf_def)
next
  case (Cons g cws)
  have "refsOf (byRef n (g # cws))
      = [n..<n + length (SearchStudentsListRowTable.students g)]
        @ refsOf (byRef (n + length (SearchStudentsListRowTable.students g)) cws)"
    by (simp add: refsOf_def)
  also have "\<dots> = [n..<n + length (SearchStudentsListRowTable.students g)]
        @ [n + length (SearchStudentsListRowTable.students g)
           ..<n + length (SearchStudentsListRowTable.students g) + length (rowsOf cws)]"
    by (simp only: Cons.IH)
  also have "\<dots> = [n..<n + length (rowsOf (g # cws))]"
    using upt_add_eq_append [of n "n + length (SearchStudentsListRowTable.students g)" "length (rowsOf cws)"]
    by (simp add: rowsOf_def add.assoc)
  finally show ?case .
qed

lemma courseIds_readTables_byRef:
  "map SearchStudentsListRowTable.courseId (readTables rows (byRef n cws))
     = map SearchStudentsListRowTable.courseId cws"
  by (induction cws arbitrary: n) (simp_all add: readTables_def)

lemma fresh_rows:
  "rowsOf (readTables (fst (combineCourses (storeOf cws) (byRef 0 cws) ps)) (byRef 0 cws))
     = map (\<lambda>(r, p). withPrivilege r p) (zip (rowsOf cws) ps) @ drop (length ps) (rowsOf cws)"
proof (rule nth_equalityI)
  let ?N = "length (rowsOf cws)"
  let ?rows' = "foldl assignPrivilege (storeOf cws) (zip [0..<?N] ps)"
  have lhs: "rowsOf (readTables (fst (combineCourses (storeOf cws) (byRef 0 cws) ps)) (byRef 0 cws))
               = map ?rows' [0..<?N]"
    by (simp add: rowsOf_readTables combineCourses_eq refsOf_byRef)
  show len: "length (rowsOf (readTables (fst (combineCourses (storeOf cws) (byRef 0 cws) ps)) (byRef 0 cws)))
        = length (map (\<lambda>(r, p). withPrivilege r p) (zip (rowsOf cws) ps) @ drop (length ps) (rowsOf cws))"
    by (simp add: lhs)
  fix i
  assume "i < length (rowsOf (readTables (fst (combineCourses (storeOf cws) (byRef 0 cws) ps)) (byRef 0 cws)))"
  then have i: "i < ?N" by (simp add: lhs)
  have mf: "map fst (zip [0..<?N] ps) = [0..<min ?N (length ps)]"
    by (simp add: map_fst_zip_take take_upt min_def)
  show "rowsOf (readTables (fst (combineCourses (storeOf cws) (byRef 0 cws) ps)) (byRef 0 cws)) ! i
        = (map (\<lambda>(r, p). withPrivilege r p) (zip (rowsOf cws) ps) @ drop (length ps) (rowsOf cws)) ! i"
  proof (cases "i < length ps")
    case True
    have "(i, ps ! i) \<in> set (zip [0..<?N] ps)"
      using i True by (auto simp: in_set_zip intro!: exI [of _ i])
    then obtain as bs where sp: "zip [0..<?N] ps = as @ (i, ps ! i) # bs"
      by (meson split_list)
    have "distinct (map fst (zip [0..<?N] ps))" by (simp add: mf)
    then have "i \<notin> fst ` set bs" by (simp add: sp) 
    then have "foldl assignPrivilege (storeOf cws) (as @ (i, ps ! i) # bs) i
                 = withPrivilege (storeOf cws i) (ps ! i)"
      by (rule assign_last)
    then have "?rows' i = withPrivilege (storeOf cws i) (ps ! i)"
      by (simp only: sp)
    then show ?thesis using i True by (simp add: lhs nth_append storeOf_def)
  next
    case False
    have "fst ` set (zip [0..<?N] ps) = set [0..<min ?N (length ps)]"
      using mf by (metis set_map)
    then have "i \<notin> fst ` set (zip [0..<?N] ps)" using False by simp
    then have "?rows' i = storeOf cws i" by (rule assign_other)
    then show ?thesis using i False by (simp add: lhs nth_append storeOf_def min_def)
  qed
qed

subsection \<open>The privilege lookups\<close>

lemma find_append:
  "List.find P (xs @ ys) = (case List.find P xs of None \<Rightarrow> List.find P ys | Some a \<Rightarrow> Some a)"
  by (induction xs) auto

lemma fst_issueSection: "fst (issueSection cid st x) = fst st @ [(length (fst st), cid, x)]"
  by (simp add: issueSection_def Let_def)

lemma snd_issueSection: "snd (issueSection cid st x) = (snd st)(x \<mapsto> (length (fst st), cid, x))"
  by (simp add: issueSection_def Let_def)

lemma issueSection_fst:
  "fst (foldl (issueSection cid) st secs)
     = fst st @ zip [length (fst st)..<length (fst st) + length secs] (map (Pair cid) secs)"
proof (induction secs rule: rev_induct)
  case Nil
  show ?case by simp
next
  case (snoc x secs)
  have "fst (foldl (issueSection cid) st (secs @ [x]))
      = fst (foldl (issueSection cid) st secs)
        @ [(length (fst (foldl (issueSection cid) st secs)), cid, x)]"
    by (simp only: foldl_append foldl.simps fst_issueSection)
  then show ?case by (simp add: snoc.IH)
qed

lemma issueSection_snd:
  "distinct secs \<Longrightarrow>
   snd (foldl (issueSection cid) st secs) k
     = (if k \<in> set secs
        then lookupFor (zip [length (fst st)..<length (fst st) + length secs] (map (Pair cid) secs)) cid k
        else snd st k)"
proof (induction secs rule: rev_induct)
  case Nil
  show ?case by simp
next
  case (snoc x secs)
  let ?n = "length (fst st)"
  let ?new = "zip [?n..<?n + length secs] (map (Pair cid) secs)"
  have d: "distinct secs" and nx: "x \<notin> set secs" using snoc.prems by simp_all
  have none: "lookupFor ?new cid x = None"
    using nx by (auto simp: lookupFor_def find_None_iff dest!: set_zip_rightD)
  have some: "lookupFor ?new cid k \<noteq> None" if "k \<in> set secs" for k
  proof -
    have ms: "map snd ?new = map (Pair cid) secs" by (simp add: map_snd_zip)
    have "(cid, k) \<in> set (map (Pair cid) secs)" using that by simp
    then have "(cid, k) \<in> set (map snd ?new)" unfolding ms .
    then have "(cid, k) \<in> snd ` set ?new" by (simp only: set_map)
    then obtain l where "l \<in> set ?new" "(cid, k) = snd l" by (rule imageE)
    then have "\<exists>l. l \<in> set ?new \<and> snd l = (cid, k)" by metis
    then show ?thesis by (simp only: lookupFor_def find_None_iff not_not)
  qed
  have len: "length (fst (foldl (issueSection cid) st secs)) = ?n + length secs"
    by (simp add: issueSection_fst)
  show ?case
  proof (cases "k = x")
    case True
    then show ?thesis using none
      by (simp add: snd_issueSection len lookupFor_def find_append)
  next
    case False
    then show ?thesis using snoc.IH [OF d] some [of k]
      by (auto simp: snd_issueSection lookupFor_def find_append)
  qed
qed

lemma privilegesOfCourse_fst:
  "fst (privilegesOfCourse h st g)
     = fst st @ zip [length (fst st)..<length (fst st) + length (pairsOf h g)] (pairsOf h g)"
  by (simp add: privilegesOfCourse_def Let_def issueSection_fst pairsOf_def sectionsOf_def
        sectionOf_def [abs_def])

lemma privilegesOfCourse_snd:
  "snd (privilegesOfCourse h st g)
     = snd st @ map (\<lambda>r. lookupFor (zip [length (fst st)..<length (fst st) + length (pairsOf h g)] (pairsOf h g))
                           (SearchStudentsListRowTable.courseId g) (sectionOf h r))
                  (SearchStudentsListRowTable.students g)"
proof -
  let ?secs = "sectionsOf h g"
  have d: "distinct ?secs" by (simp add: sectionsOf_def distinct_new_Set)
  have mem: "sectionOf h r \<in> set ?secs" if "r \<in> set (SearchStudentsListRowTable.students g)" for r
    using that by (simp add: sectionsOf_def set_new_Set)
  have "snd (privilegesOfCourse h st g)
      = snd st @ map (\<lambda>r. snd (foldl (issueSection (SearchStudentsListRowTable.courseId g))
                                  (fst st, Map.empty) ?secs) (sectionOf h r))
                   (SearchStudentsListRowTable.students g)"
    by (simp add: privilegesOfCourse_def Let_def sectionsOf_def sectionOf_def [abs_def])
  also have "\<dots> = snd st @ map (\<lambda>r. lookupFor (zip [length (fst st)..<length (fst st) + length (pairsOf h g)] (pairsOf h g))
                           (SearchStudentsListRowTable.courseId g) (sectionOf h r))
                  (SearchStudentsListRowTable.students g)"
    using mem by (simp add: issueSection_snd [OF d] pairsOf_def)
  finally show ?thesis .
qed

lemma zip_upt_append:
  "zip [a..<a + (length xs + length ys)] (xs @ ys)
     = zip [a..<a + length xs] xs @ zip [a + length xs..<a + length xs + length ys] ys"
proof -
  have "[a..<a + (length xs + length ys)] = [a..<a + length xs] @ [a + length xs..<a + length xs + length ys]"
    using upt_add_eq_append [of a "a + length xs" "length ys"] by (simp add: add.assoc)
  then show ?thesis by (simp add: zip_append)
qed

lemma lookupFor_append:
  "lookupFor (xs @ ys) c s = (case lookupFor xs c s of None \<Rightarrow> lookupFor ys c s | Some l \<Rightarrow> Some l)"
  by (simp add: lookupFor_def find_append split: option.split)

lemma lookupFor_None_iff: "lookupFor xs c s = None \<longleftrightarrow> (c, s) \<notin> snd ` set xs"
  by (auto simp: lookupFor_def find_None_iff image_iff)

lemma snd_set_numbered: "snd ` set (zip [a..<a + length ps] ps) = set ps"
proof -
  have "map snd (zip [a..<a + length ps] ps) = ps" by (simp add: map_snd_zip)
  then have "set (map snd (zip [a..<a + length ps] ps)) = set ps" by simp
  then show ?thesis by (simp only: set_map)
qed

lemma set_pairsOf:
  "set (pairsOf h g) = (\<lambda>r. (SearchStudentsListRowTable.courseId g, sectionOf h r)) ` set (SearchStudentsListRowTable.students g)"
  by (auto simp: pairsOf_def sectionsOf_def set_new_Set image_iff)

lemma foldl_privilegesOfCourse_fst:
  "fst (foldl (privilegesOfCourse h) st cws)
     = fst st @ zip [length (fst st)..<length (fst st) + length (allPairs h cws)] (allPairs h cws)"
proof (induction cws rule: rev_induct)
  case Nil
  show ?case by (simp add: allPairs_def)
next
  case (snoc g cws)
  have "fst (foldl (privilegesOfCourse h) st (cws @ [g]))
      = fst (privilegesOfCourse h (foldl (privilegesOfCourse h) st cws) g)"
    by simp
  also have "\<dots> = fst st @ (zip [length (fst st)..<length (fst st) + length (allPairs h cws)] (allPairs h cws)
      @ zip [length (fst st) + length (allPairs h cws)..<length (fst st) + length (allPairs h cws) + length (pairsOf h g)] (pairsOf h g))"
    by (simp add: privilegesOfCourse_fst snoc.IH)
  also have "\<dots> = fst st @ zip [length (fst st)..<length (fst st) + length (allPairs h (cws @ [g]))] (allPairs h (cws @ [g]))"
    by (simp add: allPairs_def zip_upt_append [symmetric])
  finally show ?case .
qed

lemma privilegeRequests_foldl:
  "privilegeRequests h cws = foldl (privilegesOfCourse h) ([], []) cws"
  by (simp add: privilegeRequests_def)

lemma issued_eq:
  "fst (privilegeRequests h cws) = zip [0..<length (allPairs h cws)] (allPairs h cws)"
  by (simp add: privilegeRequests_foldl foldl_privilegesOfCourse_fst)

lemma entries_eq:
  "distinct (map SearchStudentsListRowTable.courseId cws) \<Longrightarrow>
   snd (privilegeRequests h cws)
     = concat (map (\<lambda>g. map (\<lambda>r. lookupFor (fst (privilegeRequests h cws))
                                    (SearchStudentsListRowTable.courseId g) (sectionOf h r))
                            (SearchStudentsListRowTable.students g)) cws)"
proof (induction cws rule: rev_induct)
  case Nil
  show ?case by (simp add: privilegeRequests_def)
next
  case (snoc g cws)
  let ?cid = SearchStudentsListRowTable.courseId
  let ?rows = SearchStudentsListRowTable.students
  let ?old = "fst (privilegeRequests h cws)"
  let ?new = "zip [length ?old..<length ?old + length (pairsOf h g)] (pairsOf h g)"
  have d: "distinct (map ?cid cws)" and ng: "?cid g \<notin> ?cid ` set cws"
    using snoc.prems by simp_all
  have all: "fst (privilegeRequests h (cws @ [g])) = ?old @ ?new"
    by (simp add: privilegeRequests_foldl privilegesOfCourse_fst)
  have old_pairs: "snd ` set ?old = set (allPairs h cws)"
    by (simp only: issued_eq) (rule snd_set_numbered [of 0, simplified])
  have a: "lookupFor (?old @ ?new) (?cid g') (sectionOf h r) = lookupFor ?old (?cid g') (sectionOf h r)"
    if "g' \<in> set cws" "r \<in> set (?rows g')" for g' r
  proof -
    have "(?cid g', sectionOf h r) \<in> set (allPairs h cws)"
      using that by (auto simp: allPairs_def set_pairsOf)
    then have "lookupFor ?old (?cid g') (sectionOf h r) \<noteq> None"
      by (simp only: lookupFor_None_iff old_pairs not_not)
    then show ?thesis by (auto simp: lookupFor_append)
  qed
  have b: "lookupFor (?old @ ?new) (?cid g) sec = lookupFor ?new (?cid g) sec" for sec
  proof -
    have "(?cid g, sec) \<notin> set (allPairs h cws)"
      using ng by (auto simp: allPairs_def set_pairsOf)
    then have "lookupFor ?old (?cid g) sec = None"
      by (simp only: lookupFor_None_iff old_pairs not_False_eq_True)
    then show ?thesis by (simp add: lookupFor_append)
  qed
  have "snd (privilegeRequests h (cws @ [g]))
      = snd (privilegeRequests h cws) @ map (\<lambda>r. lookupFor ?new (?cid g) (sectionOf h r)) (?rows g)"
    by (simp add: privilegeRequests_foldl privilegesOfCourse_snd)
  also have "\<dots> = concat (map (\<lambda>g'. map (\<lambda>r. lookupFor ?old (?cid g') (sectionOf h r)) (?rows g')) cws)
      @ map (\<lambda>r. lookupFor ?new (?cid g) (sectionOf h r)) (?rows g)"
    by (simp only: snoc.IH [OF d])
  also have "\<dots> = concat (map (\<lambda>g'. map (\<lambda>r. lookupFor (?old @ ?new) (?cid g') (sectionOf h r)) (?rows g')) cws)
      @ map (\<lambda>r. lookupFor (?old @ ?new) (?cid g) (sectionOf h r)) (?rows g)"
    using a by (simp add: b cong: map_cong)
  finally show ?case by (simp add: all)
qed

lemma distinct_pairsOf: "distinct (pairsOf h g)"
  by (simp add: pairsOf_def sectionsOf_def distinct_map distinct_new_Set inj_on_def)

lemma fst_allPairs:
  "fst ` set (allPairs h cws) \<subseteq> SearchStudentsListRowTable.courseId ` set cws"
  by (auto simp: allPairs_def pairsOf_def)

lemma distinct_allPairs:
  "distinct (map SearchStudentsListRowTable.courseId cws) \<Longrightarrow> distinct (allPairs h cws)"
proof (induction cws)
  case Nil
  show ?case by (simp add: allPairs_def)
next
  case (Cons g cws)
  have "set (pairsOf h g) \<inter> set (allPairs h cws) = {}"
  proof (rule ccontr)
    assume "set (pairsOf h g) \<inter> set (allPairs h cws) \<noteq> {}"
    then obtain x where x: "x \<in> set (pairsOf h g)" "x \<in> set (allPairs h cws)" by blast
    from x(1) have "fst x = SearchStudentsListRowTable.courseId g" by (auto simp: pairsOf_def)
    moreover from x(2) have "fst x \<in> SearchStudentsListRowTable.courseId ` set cws"
      using fst_allPairs [of h cws] by blast
    ultimately show False using Cons.prems by simp
  qed
  moreover have "distinct (allPairs h cws)" using Cons by simp
  ultimately show ?case
    using distinct_pairsOf [of h g] by (simp add: allPairs_def)
qed

lemma issued_pairs: "map snd (fst (privilegeRequests h cws)) = allPairs h cws"
  by (simp add: issued_eq map_snd_zip)

lemma distinct_courseIds: "distinct (map SearchStudentsListRowTable.courseId (getCoursesWithStudents h studs))"
  by (simp only: courseIds_getCoursesWithStudents distinct_new_Set)













subsection \<open>Observables and successful runs\<close>

lemma stops_no_Next: "Next v \<notin> set (stops ns)"
  by (induction ns rule: stops.induct) simp_all

lemma stops_Error_iff: "Error e \<in> set (stops ns) \<longleftrightarrow> Error e \<in> set ns"
  by (induction ns rule: stops.induct) auto

lemma stops_Nil_iff: "stops ns = [] \<longleftrightarrow> ns = map Next (nexts ns)"
  by (induction ns rule: stops.induct) auto

lemma nexts_map_Next: "nexts (map Next vs) = vs"
  by (induction vs) simp_all

lemma forkJoin_Next_iff:
  "Next vs \<in> set (forkJoin ns) \<longleftrightarrow> ns \<noteq> [] \<and> ns = map Next vs"
proof (cases "ns = []")
  case True
  then show ?thesis by (simp add: forkJoin_def)
next
  case False
  show ?thesis
  proof (cases "stops ns = ([] :: 'a list notification list)")
    case True
    then have "ns = map Next (nexts ns)" by (simp only: stops_Nil_iff)
    then show ?thesis using False True
      by (auto simp: forkJoin_def nexts_map_Next)
  next
    case F: False
    then have "ns \<noteq> map Next vs" using stops_Nil_iff [of ns] nexts_map_Next [of vs]
      by (metis stops_Nil_iff)
    then show ?thesis using False F by (simp add: forkJoin_def stops_no_Next)
  qed
qed

lemma forkJoin2_Next_iff:
  "Next xy \<in> set (forkJoin2 a b) \<longleftrightarrow> a = Next (fst xy) \<and> b = Next (snd xy)"
  by (cases a; cases b; cases xy) (auto simp: forkJoin2_def)

lemma map_notification_Next_iff:
  "map_notification f n = Next w \<longleftrightarrow> (\<exists>v. n = Next v \<and> w = f v)"
  by (cases n) auto

lemma joined_Next:
  assumes "(reqs, Next resp) \<in> set (joined h svc p)"
  shows "commentBranch svc p = Next (fst resp)"
    and "Next (snd resp) \<in> set (snd (studentBranch h svc p))"
    and "reqs = (if isSearchForComments p then [SearchComment (searchKey p)] else [])
                @ (if isSearchForStudents p then [SearchInstructor (searchKey p)] else [])
                @ map (\<lambda>l. SearchInstructorPrivilege (fst (snd l)) (snd (snd l)))
                    (fst (studentBranch h svc p))"
  using assms by (auto simp: joined_def Let_def stops_no_Next forkJoin2_Next_iff)

lemma search_run_cases:
  assumes "run \<in> set (search h svc this)"
  shows "(delivered run = None \<and> run = \<lparr>delivered = None, requests = [], final = this, toasts = []\<rparr>
          \<and> (\<not> (isSearchForComments (searchParams this) \<or> isSearchForStudents (searchParams this))
               \<or> searchKey (searchParams this) = ''''))
       \<or> (\<exists>rn \<in> set (joined h svc (searchParams this)).
             run = subscribe (this\<lparr>isSearching := True\<rparr>) rn \<and> delivered run = Some (snd rn)
             \<and> (isSearchForComments (searchParams this) \<or> isSearchForStudents (searchParams this))
             \<and> searchKey (searchParams this) \<noteq> '''')"
proof (cases "\<not> (isSearchForComments (searchParams this) \<or> isSearchForStudents (searchParams this))
               \<or> searchKey (searchParams this) = ''''")
  case True
  then show ?thesis using assms by (simp add: search_def)
next
  case False
  then obtain rn where rn: "rn \<in> set (joined h svc (searchParams this))"
      "run = subscribe (this\<lparr>isSearching := True\<rparr>) rn"
    using assms by (auto simp: search_def)
  have "delivered (subscribe (this\<lparr>isSearching := True\<rparr>) rn) = Some (snd rn)"
    by (cases "snd rn") (simp_all add: subscribe_def)
  then show ?thesis using rn False by blast
qed

lemma search_success:
  assumes "run \<in> set (search h svc this)" and "delivered run = Some (Next resp)"
  shows "commentBranch svc (searchParams this) = Next (fst resp)"
    and "Next (snd resp) \<in> set (snd (studentBranch h svc (searchParams this)))"
    and "final run = (fst (onNext (this\<lparr>isSearching := True\<rparr>) resp))\<lparr>isSearching := False\<rparr>"
    and "toasts run = snd (onNext (this\<lparr>isSearching := True\<rparr>) resp)"
    and "isSearchForComments (searchParams this) \<or> isSearchForStudents (searchParams this)"
    and "searchKey (searchParams this) \<noteq> ''''"
    and "requests run =
           (if isSearchForComments (searchParams this)
            then [SearchComment (searchKey (searchParams this))] else [])
           @ (if isSearchForStudents (searchParams this)
              then [SearchInstructor (searchKey (searchParams this))] else [])
           @ map (\<lambda>l. SearchInstructorPrivilege (fst (snd l)) (snd (snd l)))
               (fst (studentBranch h svc (searchParams this)))"
proof -
  from search_run_cases [OF assms(1)] assms(2)
  obtain rn where rn: "rn \<in> set (joined h svc (searchParams this))"
      "run = subscribe (this\<lparr>isSearching := True\<rparr>) rn" "snd rn = Next resp"
      and g: "isSearchForComments (searchParams this) \<or> isSearchForStudents (searchParams this)"
         "searchKey (searchParams this) \<noteq> ''''"
    by auto
  have mem: "(fst rn, Next resp) \<in> set (joined h svc (searchParams this))"
    using rn(1,3) by (metis prod.collapse)
  show "commentBranch svc (searchParams this) = Next (fst resp)"
    by (rule joined_Next(1) [OF mem])
  show "Next (snd resp) \<in> set (snd (studentBranch h svc (searchParams this)))"
    by (rule joined_Next(2) [OF mem])
  show "final run = (fst (onNext (this\<lparr>isSearching := True\<rparr>) resp))\<lparr>isSearching := False\<rparr>"
    using rn(2,3) by (simp add: subscribe_def)
  show "toasts run = snd (onNext (this\<lparr>isSearching := True\<rparr>) resp)"
    using rn(2,3) by (simp add: subscribe_def)
  show "isSearchForComments (searchParams this) \<or> isSearchForStudents (searchParams this)"
    and "searchKey (searchParams this) \<noteq> ''''"
    using g by simp_all
  have "requests run = fst rn"
    using rn(2,3) by (simp add: subscribe_def)
  then show "requests run =
           (if isSearchForComments (searchParams this)
            then [SearchComment (searchKey (searchParams this))] else [])
           @ (if isSearchForStudents (searchParams this)
              then [SearchInstructor (searchKey (searchParams this))] else [])
           @ map (\<lambda>l. SearchInstructorPrivilege (fst (snd l)) (snd (snd l)))
               (fst (studentBranch h svc (searchParams this)))"
    using joined_Next(3) [OF mem] by simp
qed

lemma getPrivileges_Next:
  assumes "Next privs \<in> set (getPrivileges h svc cws)"
  shows "map (lookupSource svc) (snd (privilegeRequests h cws)) = map Next privs"
proof (cases "cws = []")
  case True
  then show ?thesis using assms by (simp add: getPrivileges_def privilegeRequests_def)
next
  case False
  then show ?thesis using assms by (simp add: getPrivileges_def forkJoin_Next_iff)
qed

lemma studentBranch_Next:
  assumes "Next t \<in> set (snd (studentBranch h svc p))"
  shows "(\<not> isSearchForStudents p \<and> t = placeholder)
       \<or> (isSearchForStudents p \<and>
           (\<exists>res privs. searchInstructor svc (searchKey p) = Inr res
              \<and> map (lookupSource svc)
                    (snd (privilegeRequests h (getCoursesWithStudents h (InstructorSearchResult.students res))))
                  = map Next privs
              \<and> t = snd (combinePrivileges
                         (storeOf (getCoursesWithStudents h (InstructorSearchResult.students res)))
                         (byRef 0 (getCoursesWithStudents h (InstructorSearchResult.students res)), privs))))"
proof (cases "isSearchForStudents p")
  case False
  then show ?thesis using assms by (simp add: studentBranch_def)
next
  case True
  show ?thesis
  proof (cases "searchInstructor svc (searchKey p)")
    case (Inl m)
    then show ?thesis using assms True by (simp add: studentBranch_def)
  next
    case (Inr res)
    let ?cws = "getCoursesWithStudents h (InstructorSearchResult.students res)"
    from assms True Inr obtain n xy where
      n: "n \<in> set (getPrivileges h svc ?cws)" and xy: "Next xy \<in> set (forkJoin2 (Next (byRef 0 ?cws)) n)"
      and t: "t = snd (combinePrivileges (storeOf ?cws) xy)"
      by (auto simp: studentBranch_def Let_def map_notification_Next_iff eq_commute [of "Next t"])
    obtain cws' privs where xyeq: "xy = (cws', privs)" by (cases xy)
    from xy xyeq have e: "cws' = byRef 0 ?cws" "n = Next privs" by (simp_all add: forkJoin2_Next_iff)
    have "map (lookupSource svc) (snd (privilegeRequests h ?cws)) = map Next privs"
      using n e(2) by (simp add: getPrivileges_Next)
    moreover have "t = snd (combinePrivileges (storeOf ?cws) (byRef 0 ?cws, privs))"
      using t xyeq e(1) by simp
    ultimately have "searchInstructor svc (searchKey p) = Inr res
        \<and> map (lookupSource svc) (snd (privilegeRequests h ?cws)) = map Next privs
        \<and> t = snd (combinePrivileges (storeOf ?cws) (byRef 0 ?cws, privs))"
      using Inr by simp
    then show ?thesis using True Inr by blast
  qed
qed

lemma hasLength_simps [simp]:
  "hasLength None = False" "hasLength (Some xs) = (xs \<noteq> [])"
  by (simp_all add: hasLength_def)

text \<open>
  C3: after a successful search whose student branch delivered no course group (the
  placeholder of a search with \<^verbatim>\<open>isSearchForStudents\<close> false, which has no student
  table at all, or an empty list), the displayed student table is the one shown before
  the search. The table is replaced, by the delivered course groups, only when these are
  not empty.
\<close>

theorem search_retains_student_table:
  assumes "run \<in> set (search h svc this)" and "delivered run = Some (Next resp)"
  shows "Next (snd resp) \<in> set (snd (studentBranch h svc (searchParams this)))
       \<and> (if hasLength (searchStudentTables (snd resp))
          then searchStudentTables (snd resp) = Some (studentsListRowTables (final run))
          else studentsListRowTables (final run) = studentsListRowTables this)
       \<and> (isSearchForStudents (searchParams this) \<or> searchStudentTables (snd resp) = None)"
proof -
  note s = search_success [OF assms]
  have "isSearchForStudents (searchParams this) \<or> searchStudentTables (snd resp) = None"
    using studentBranch_Next [OF s(2)] by (auto simp: placeholder_def)
  moreover have "if hasLength (searchStudentTables (snd resp))
          then searchStudentTables (snd resp) = Some (studentsListRowTables (final run))
          else studentsListRowTables (final run) = studentsListRowTables this"
    by (cases "searchStudentTables (snd resp)") (simp_all add: s(3) onNext_def Let_def)
  ultimately show ?thesis using s(2) by simp
qed

theorem search_retains_student_table_witness:
  "exCommentRun \<in> set (search exHeap exService exCommentSearch)
   \<and> delivered exCommentRun
       = Some (Next (\<lparr>searchCommentTables = Some exCommentTables, searchStudentTables = Some []\<rparr>,
                     placeholder))
   \<and> \<not> isSearchForStudents (searchParams exCommentSearch)
   \<and> studentsListRowTables exCommentSearch = exTables
   \<and> studentsListRowTables (final exCommentRun) = exTables"
proof -
  have a: "exCommentRun \<in> set (search exHeap exService exCommentSearch)"
    by (simp add: search_exCommentSearch)
  have b: "delivered exCommentRun
       = Some (Next (\<lparr>searchCommentTables = Some exCommentTables, searchStudentTables = Some []\<rparr>,
                     placeholder))"
    by (simp add: exCommentRun_def)
  show ?thesis
    using a b search_retains_student_table [OF a b]
    by (simp add: exCommentSearch_def placeholder_def)
qed

text \<open>
  C4 (amended): a successful search shows exactly one warning \<^verbatim>\<open>No results found.\<close>
  when the comment tables and the student tables this search delivered are both empty or
  absent, and shows nothing otherwise. The student tables it looks at are the new ones: a
  student table retained from an earlier search does not suppress the warning.
\<close>

theorem search_warns_when_new_results_empty:
  assumes "run \<in> set (search h svc this)" and "delivered run = Some (Next resp)"
  shows "toasts run =
          (if \<not> hasLength (searchCommentTables (fst resp)) \<and> \<not> hasLength (searchStudentTables (snd resp))
           then [WarningToast ''No results found.''] else [])"
proof -
  have "snd (onNext (this\<lparr>isSearching := True\<rparr>) resp) =
          (if \<not> hasLength (searchCommentTables (fst resp)) \<and> \<not> hasLength (searchStudentTables (snd resp))
           then [WarningToast ''No results found.''] else [])"
    by (simp add: onNext_def Let_def)
  then show ?thesis
    by (simp only: search_success(4) [OF assms])
qed

theorem search_warns_when_new_results_empty_witness:
  "exQuietBothRun \<in> set (search exHeap exQuietService exBothSearch)
   \<and> delivered exQuietBothRun
       = Some (Next (\<lparr>searchCommentTables = Some [], searchStudentTables = Some []\<rparr>,
                     \<lparr>searchCommentTables = Some [], searchStudentTables = Some []\<rparr>))
   \<and> toasts exQuietBothRun = [WarningToast ''No results found.'']
   \<and> exStudentRun \<in> set (search exHeap exService exStudentSearch)
   \<and> toasts exStudentRun = []"
proof -
  have a: "exQuietBothRun \<in> set (search exHeap exQuietService exBothSearch)"
    by (simp add: search_exQuietBoth)
  have b: "delivered exQuietBothRun
       = Some (Next (\<lparr>searchCommentTables = Some [], searchStudentTables = Some []\<rparr>,
                     \<lparr>searchCommentTables = Some [], searchStudentTables = Some []\<rparr>))"
    by (simp add: exQuietBothRun_def)
  have c: "exStudentRun \<in> set (search exHeap exService exStudentSearch)"
    by (simp add: search_exStudentSearch)
  have d: "delivered exStudentRun
       = Some (Next (placeholder, \<lparr>searchCommentTables = Some [], searchStudentTables = Some exTables\<rparr>))"
    by (simp add: exStudentRun_def)
  show ?thesis
    using a b c search_warns_when_new_results_empty [OF a b]
      search_warns_when_new_results_empty [OF c d]
    by (simp add: exTables_def placeholder_def)
qed

theorem search_warns_despite_retained_table_counterexample:
  "search exHeap exQuietService exCommentSearch = [exQuietCommentRun]
   \<and> toasts exQuietCommentRun = [WarningToast ''No results found.'']
   \<and> studentsListRowTables (final exQuietCommentRun) = exTables
   \<and> exTables \<noteq> []"
  by (simp add: search_exQuietComment) (simp add: exQuietCommentRun_def exTables_def)

text \<open>
  C10: every successful search assigns what the comment branch delivered to the displayed
  comment table, whatever was shown before: the comment tables of the search result when
  comments were searched, and nothing (\<^verbatim>\<open>undefined\<close>) when they were not, since the
  placeholder has no comment field.
\<close>

theorem search_overwrites_comment_table:
  assumes "run \<in> set (search h svc this)" and "delivered run = Some (Next resp)"
  shows "commentBranch svc (searchParams this) = Next (fst resp)
       \<and> commentTables (final run) = searchCommentTables (fst resp)
       \<and> (if isSearchForComments (searchParams this)
          then \<exists>res. searchComment svc (searchKey (searchParams this)) = Inr res
                 \<and> commentTables (final run) = Some (getSearchCommentsTable (comments res))
          else commentTables (final run) = None)"
proof -
  note s = search_success [OF assms]
  have c: "commentTables (final run) = searchCommentTables (fst resp)"
    by (cases "searchStudentTables (snd resp)") (simp_all add: s(3) onNext_def Let_def)
  show ?thesis
  proof (cases "isSearchForComments (searchParams this)")
    case False
    then have "fst resp = placeholder" using s(1) by (simp add: commentBranch_def)
    then show ?thesis using False c s(1) by (simp add: placeholder_def)
  next
    case True
    then obtain res where "searchComment svc (searchKey (searchParams this)) = Inr res"
      and "fst resp = \<lparr>searchCommentTables = Some (getSearchCommentsTable (comments res)),
                    searchStudentTables = Some []\<rparr>"
      using s(1) by (auto simp: commentBranch_def http_def map_notification_Next_iff split: sum.splits)
    then show ?thesis using True c s(1) by simp
  qed
qed

theorem search_overwrites_comment_table_witness:
  "exStudentRun \<in> set (search exHeap exService exStudentSearch)
   \<and> delivered exStudentRun
       = Some (Next (placeholder, \<lparr>searchCommentTables = Some [], searchStudentTables = Some exTables\<rparr>))
   \<and> commentTables exStudentSearch = Some exCommentTables
   \<and> commentTables (final exStudentRun) = None"
proof -
  have a: "exStudentRun \<in> set (search exHeap exService exStudentSearch)"
    by (simp add: search_exStudentSearch)
  have b: "delivered exStudentRun
       = Some (Next (placeholder, \<lparr>searchCommentTables = Some [], searchStudentTables = Some exTables\<rparr>))"
    by (simp add: exStudentRun_def)
  show ?thesis
    using a b search_overwrites_comment_table [OF a b]
    by (simp add: exStudentSearch_def placeholder_def)
qed

text \<open>
  C6: \<^verbatim>\<open>search()\<close> returns at once, with no request sent, nothing shown and the
  component unchanged (the busy flag and both tables included), exactly when both toggles
  are off or the search key is the empty string. A key of blanks is not empty.
\<close>

theorem search_noop_iff:
  "(search h svc this = [\<lparr>delivered = None, requests = [], final = this, toasts = []\<rparr>])
     = (\<not> (isSearchForComments (searchParams this) \<or> isSearchForStudents (searchParams this))
        \<or> searchKey (searchParams this) = '''')"
proof (cases "\<not> (isSearchForComments (searchParams this) \<or> isSearchForStudents (searchParams this))
        \<or> searchKey (searchParams this) = ''''")
  case True
  then show ?thesis by (simp add: search_def)
next
  case False
  have "delivered r \<noteq> None" if "r \<in> set (search h svc this)" for r
    using search_run_cases [OF that] False by auto
  then have "search h svc this \<noteq> [\<lparr>delivered = None, requests = [], final = this, toasts = []\<rparr>]"
    by (metis list.set_intros(1) run.select_convs(1))
  then show ?thesis using False by simp
qed

theorem search_noop_iff_witness:
  "search exHeap exService exEmptyKey
     = [\<lparr>delivered = None, requests = [], final = exEmptyKey, toasts = []\<rparr>]
   \<and> search exHeap exService exBlankKey
     \<noteq> [\<lparr>delivered = None, requests = [], final = exBlankKey, toasts = []\<rparr>]"
  using search_noop_iff [of exHeap exService exEmptyKey] search_noop_iff [of exHeap exService exBlankKey]
  by (simp add: exEmptyKey_def exBlankKey_def)

subsection \<open>Privileges of the rows after a search\<close>

lemma group_courseId:
  assumes "g \<in> set (getCoursesWithStudents h studs)" and "r \<in> set (SearchStudentsListRowTable.students g)"
  shows "Student.courseId (h (student r)) = SearchStudentsListRowTable.courseId g"
proof -
  have "student r \<in> set (map student (SearchStudentsListRowTable.students g))"
    using assms(2) by simp
  then show ?thesis
    by (simp only: group_students(1) [OF assms(1)] set_new_Set set_filter) simp
qed

lemma entries_flat:
  "snd (privilegeRequests h (getCoursesWithStudents h studs))
     = map (\<lambda>r. lookupFor (fst (privilegeRequests h (getCoursesWithStudents h studs)))
                   (Student.courseId (h (student r))) (sectionOf h r))
         (rowsOf (getCoursesWithStudents h studs))"
proof -
  let ?cws = "getCoursesWithStudents h studs"
  let ?issued = "fst (privilegeRequests h ?cws)"
  have "snd (privilegeRequests h ?cws)
      = concat (map (\<lambda>g. map (\<lambda>r. lookupFor ?issued (SearchStudentsListRowTable.courseId g) (sectionOf h r))
                            (SearchStudentsListRowTable.students g)) ?cws)"
    by (rule entries_eq [OF distinct_courseIds])
  also have "\<dots> = concat (map (\<lambda>g. map (\<lambda>r. lookupFor ?issued (Student.courseId (h (student r))) (sectionOf h r))
                            (SearchStudentsListRowTable.students g)) ?cws)"
    by (simp add: group_courseId cong: map_cong)
  also have "\<dots> = map (\<lambda>r. lookupFor ?issued (Student.courseId (h (student r))) (sectionOf h r)) (rowsOf ?cws)"
    by (simp add: rowsOf_def map_concat o_def)
  finally show ?thesis .
qed

lemma lookupFor_Some:
  "lookupFor issued cid section = Some l \<Longrightarrow> l \<in> set issued \<and> snd l = (cid, section)"
  by (auto simp: lookupFor_def find_Some_iff)

lemma zip_map_eq:
  "map f xs = map g ys \<Longrightarrow> (x, y) \<in> set (zip xs ys) \<Longrightarrow> f x = g y"
proof (induction xs arbitrary: ys)
  case Nil
  then show ?case by simp
next
  case (Cons a xs)
  then show ?case by (cases ys) auto
qed

lemma lookupSource_Next:
  "lookupSource svc entry = Next p \<Longrightarrow>
     \<exists>n cid section. entry = Some (n, cid, section) \<and> searchInstructorPrivilege svc n cid section = Inr p"
  by (auto simp: lookupSource_def http_def split: option.splits sum.splits)

lemma unique_lookup:
  assumes "distinct (map snd issued)" and "(n, k) \<in> set issued" and "(n', k) \<in> set issued"
  shows "n' = n"
proof -
  have "inj_on snd (set issued)" using assms(1) by (simp add: distinct_map)
  then have "(n', k) = (n, k)"
    using assms(2,3) by (intro inj_onD [of snd "set issued"]) simp_all
  then show ?thesis by simp
qed

lemma map_student_zip:
  "length ps = length rs \<Longrightarrow>
   map student (map (\<lambda>(r, p). withPrivilege r p) (zip rs ps)) = map student rs"
  by (induction ps rs rule: list_induct2) (simp_all add: student_withPrivilege)

lemma getCoursesWithStudents_Nil_iff: "getCoursesWithStudents h studs = [] \<longleftrightarrow> studs = []"
  by (simp add: getCoursesWithStudents_alt new_Set_eq_Nil)

text \<open>
  C1: after a successful search for students, the student search has answered with a
  result, and every row of the course groups the student branch delivered (which are the
  displayed table whenever the search found a student) carries the two flags of the
  privilege with which the service answered the one lookup issued for the row's course id
  and section name. Rows with the same course id and section name therefore carry
  identical flags.
\<close>

theorem search_rows_carry_fetched_privileges:
  assumes "run \<in> set (search h svc this)"
    and "delivered run = Some (Next resp)"
    and "isSearchForStudents (searchParams this)"
  shows "\<exists>res tables.
           searchInstructor svc (searchKey (searchParams this)) = Inr res
         \<and> searchStudentTables (snd resp) = Some tables
         \<and> (if InstructorSearchResult.students res = [] then tables = []
            else studentsListRowTables (final run) = tables)
         \<and> map student (rowsOf tables)
             = map student (rowsOf (getCoursesWithStudents h (InstructorSearchResult.students res)))
         \<and> (\<forall>r \<in> set (rowsOf tables).
               \<exists>n p. (n, Student.courseId (h (student r)), sectionName (h (student r)))
                        \<in> set (fst (privilegeRequests h
                                (getCoursesWithStudents h (InstructorSearchResult.students res))))
                    \<and> (\<forall>n'. (n', Student.courseId (h (student r)), sectionName (h (student r)))
                              \<in> set (fst (privilegeRequests h
                                     (getCoursesWithStudents h (InstructorSearchResult.students res))))
                            \<longrightarrow> n' = n)
                    \<and> searchInstructorPrivilege svc n (Student.courseId (h (student r)))
                          (sectionName (h (student r))) = Inr p
                    \<and> isAllowedToViewStudentInSection r = canViewStudentInSections p
                    \<and> isAllowedToModifyStudent r = canModifyStudent p)
         \<and> (\<forall>r \<in> set (rowsOf tables). \<forall>r' \<in> set (rowsOf tables).
               Student.courseId (h (student r)) = Student.courseId (h (student r'))
               \<and> sectionName (h (student r)) = sectionName (h (student r'))
               \<longrightarrow> isAllowedToViewStudentInSection r = isAllowedToViewStudentInSection r'
                 \<and> isAllowedToModifyStudent r = isAllowedToModifyStudent r')
         \<and> requests run =
             (if isSearchForComments (searchParams this)
              then [SearchComment (searchKey (searchParams this))] else [])
             @ [SearchInstructor (searchKey (searchParams this))]
             @ map (\<lambda>l. SearchInstructorPrivilege (fst (snd l)) (snd (snd l)))
                 (fst (privilegeRequests h
                        (getCoursesWithStudents h (InstructorSearchResult.students res))))"
proof -
  note s = search_success [OF assms(1,2)]
  from studentBranch_Next [OF s(2)] assms(3) obtain res privs where
    res: "searchInstructor svc (searchKey (searchParams this)) = Inr res"
    and src: "map (lookupSource svc)
                (snd (privilegeRequests h (getCoursesWithStudents h (InstructorSearchResult.students res))))
              = map Next privs"
    and t: "snd resp = snd (combinePrivileges
                  (storeOf (getCoursesWithStudents h (InstructorSearchResult.students res)))
                  (byRef 0 (getCoursesWithStudents h (InstructorSearchResult.students res)), privs))"
    by auto
  let ?cws = "getCoursesWithStudents h (InstructorSearchResult.students res)"
  let ?issued = "fst (privilegeRequests h ?cws)"
  let ?rows = "rowsOf ?cws"
  let ?tables = "readTables (fst (combineCourses (storeOf ?cws) (byRef 0 ?cws) privs)) (byRef 0 ?cws)"
  let ?cid = "\<lambda>r. Student.courseId (h (student r))"
  let ?sec = "\<lambda>r. sectionName (h (student r))"
  have tab: "searchStudentTables (snd resp) = Some ?tables"
    by (simp add: t combinePrivileges_def Let_def)
  have F: "map (\<lambda>r. lookupSource svc (lookupFor ?issued (?cid r) (?sec r))) ?rows = map Next privs"
    using src by (simp add: entries_flat o_def sectionOf_def)
  have len: "length privs = length ?rows"
    using arg_cong [OF F, of length] by simp
  have rows': "rowsOf ?tables = map (\<lambda>(r, p). withPrivilege r p) (zip ?rows privs)"
    by (simp add: fresh_rows len)
  have stud: "map student (rowsOf ?tables) = map student ?rows"
    by (simp only: rows' map_student_zip [OF len])
  have dist: "distinct (map snd ?issued)"
    by (simp only: issued_pairs distinct_allPairs [OF distinct_courseIds])
  have row: "\<exists>n p. (n, ?cid r', ?sec r') \<in> set ?issued
                \<and> (\<forall>n'. (n', ?cid r', ?sec r') \<in> set ?issued \<longrightarrow> n' = n)
                \<and> searchInstructorPrivilege svc n (?cid r') (?sec r') = Inr p
                \<and> isAllowedToViewStudentInSection r' = canViewStudentInSections p
                \<and> isAllowedToModifyStudent r' = canModifyStudent p"
    if "r' \<in> set (rowsOf ?tables)" for r'
  proof -
    from that obtain r p where rp: "(r, p) \<in> set (zip ?rows privs)" and r': "r' = withPrivilege r p"
      by (auto simp: rows')
    have "lookupSource svc (lookupFor ?issued (?cid r) (?sec r)) = Next p"
      by (rule zip_map_eq [OF F rp])
    then obtain n c sc where l: "lookupFor ?issued (?cid r) (?sec r) = Some (n, c, sc)"
      and a: "searchInstructorPrivilege svc n c sc = Inr p"
      using lookupSource_Next by blast
    from lookupFor_Some [OF l] have m0: "(n, c, sc) \<in> set ?issued" and e: "c = ?cid r" "sc = ?sec r"
      by auto
    have m: "(n, ?cid r, ?sec r) \<in> set ?issued" using m0 by (simp only: e)
    have a': "searchInstructorPrivilege svc n (?cid r) (?sec r) = Inr p" using a by (simp only: e)
    have u: "n' = n" if "(n', ?cid r, ?sec r) \<in> set ?issued" for n'
      by (rule unique_lookup [OF dist m that])
    have st: "student r' = student r" by (simp only: r' student_withPrivilege)
    have "(n, ?cid r, ?sec r) \<in> set ?issued
                \<and> (\<forall>n'. (n', ?cid r, ?sec r) \<in> set ?issued \<longrightarrow> n' = n)
                \<and> searchInstructorPrivilege svc n (?cid r) (?sec r) = Inr p
                \<and> isAllowedToViewStudentInSection r' = canViewStudentInSections p
                \<and> isAllowedToModifyStudent r' = canModifyStudent p"
    proof (intro conjI allI impI)
      show "(n, ?cid r, ?sec r) \<in> set ?issued" by (rule m)
      show "searchInstructorPrivilege svc n (?cid r) (?sec r) = Inr p" by (rule a')
      show "isAllowedToViewStudentInSection r' = canViewStudentInSections p"
        by (simp only: r' flags_withPrivilege)
      show "isAllowedToModifyStudent r' = canModifyStudent p"
        by (simp only: r' flags_withPrivilege)
      fix n' assume "(n', ?cid r, ?sec r) \<in> set ?issued"
      then show "n' = n" by (rule u)
    qed
    then show ?thesis unfolding st by (intro exI)
  qed
  have same: "isAllowedToViewStudentInSection r = isAllowedToViewStudentInSection r'
              \<and> isAllowedToModifyStudent r = isAllowedToModifyStudent r'"
    if "r \<in> set (rowsOf ?tables)" "r' \<in> set (rowsOf ?tables)"
       "?cid r = ?cid r'" "?sec r = ?sec r'" for r r'
  proof -
    from row [OF that(1)] obtain n p where
      1: "(n, ?cid r, ?sec r) \<in> set ?issued"
         "searchInstructorPrivilege svc n (?cid r) (?sec r) = Inr p"
         "isAllowedToViewStudentInSection r = canViewStudentInSections p"
         "isAllowedToModifyStudent r = canModifyStudent p"
      by blast
    from row [OF that(2)] obtain n' p' where
      2: "\<forall>k. (k, ?cid r', ?sec r') \<in> set ?issued \<longrightarrow> k = n'"
         "searchInstructorPrivilege svc n' (?cid r') (?sec r') = Inr p'"
         "isAllowedToViewStudentInSection r' = canViewStudentInSections p'"
         "isAllowedToModifyStudent r' = canModifyStudent p'"
      by blast
    have "n = n'" using 1(1) 2(1) that(3,4) by simp
    then have "p = p'" using 1(2) 2(2) that(3,4) by simp
    then show ?thesis using 1(3,4) 2(3,4) by simp
  qed
  have shown: "if InstructorSearchResult.students res = [] then ?tables = []
               else studentsListRowTables (final run) = ?tables"
  proof (cases "InstructorSearchResult.students res = []")
    case True
    then have "?cws = []" by (simp only: getCoursesWithStudents_Nil_iff)
    then show ?thesis using True by (simp add: readTables_def)
  next
    case False
    then have "?cws \<noteq> []" by (simp add: getCoursesWithStudents_Nil_iff)
    then have "?tables \<noteq> []"
      using courseIds_readTables_byRef [of "fst (combineCourses (storeOf ?cws) (byRef 0 ?cws) privs)" 0 ?cws]
      by (metis map_is_Nil_conv)
    then show ?thesis using False by (simp add: s(3) onNext_def Let_def tab)
  qed
  have reqs: "requests run =
             (if isSearchForComments (searchParams this)
              then [SearchComment (searchKey (searchParams this))] else [])
             @ [SearchInstructor (searchKey (searchParams this))]
             @ map (\<lambda>l. SearchInstructorPrivilege (fst (snd l)) (snd (snd l))) ?issued"
    using s(7) assms(3) res by (simp add: studentBranch_def Let_def)
  have same': "\<forall>r \<in> set (rowsOf ?tables). \<forall>r' \<in> set (rowsOf ?tables).
               ?cid r = ?cid r' \<and> ?sec r = ?sec r'
               \<longrightarrow> isAllowedToViewStudentInSection r = isAllowedToViewStudentInSection r'
                 \<and> isAllowedToModifyStudent r = isAllowedToModifyStudent r'"
  proof (intro ballI impI)
    fix r r'
    assume "r \<in> set (rowsOf ?tables)" "r' \<in> set (rowsOf ?tables)" "?cid r = ?cid r' \<and> ?sec r = ?sec r'"
    then show "isAllowedToViewStudentInSection r = isAllowedToViewStudentInSection r'
                 \<and> isAllowedToModifyStudent r = isAllowedToModifyStudent r'"
      using same [of r r'] by simp
  qed
  have row': "\<forall>r \<in> set (rowsOf ?tables).
                \<exists>n p. (n, ?cid r, ?sec r) \<in> set ?issued
                \<and> (\<forall>n'. (n', ?cid r, ?sec r) \<in> set ?issued \<longrightarrow> n' = n)
                \<and> searchInstructorPrivilege svc n (?cid r) (?sec r) = Inr p
                \<and> isAllowedToViewStudentInSection r = canViewStudentInSections p
                \<and> isAllowedToModifyStudent r = canModifyStudent p"
    by (intro ballI row)
  show ?thesis
    by (rule exI [of _ res], rule exI [of _ "?tables"], intro conjI)
       (rule res, rule tab, rule shown, rule stud, rule row', rule same', rule reqs)
qed

theorem search_rows_carry_fetched_privileges_witness:
  "exStudentRun \<in> set (search exHeap exService exStudentSearch)
   \<and> delivered exStudentRun
       = Some (Next (placeholder, \<lparr>searchCommentTables = Some [], searchStudentTables = Some exTables\<rparr>))
   \<and> isSearchForStudents (searchParams exStudentSearch)
   \<and> studentsListRowTables (final exStudentRun) = exTables
   \<and> (\<exists>res tables.
           searchInstructor exService (searchKey (searchParams exStudentSearch)) = Inr res
         \<and> searchStudentTables (snd (placeholder,
               \<lparr>searchCommentTables = Some [], searchStudentTables = Some exTables\<rparr>)) = Some tables
         \<and> (if InstructorSearchResult.students res = [] then tables = []
            else studentsListRowTables (final exStudentRun) = tables)
         \<and> map student (rowsOf tables)
             = map student (rowsOf (getCoursesWithStudents exHeap (InstructorSearchResult.students res)))
         \<and> (\<forall>r \<in> set (rowsOf tables).
               \<exists>n p. (n, Student.courseId (exHeap (student r)), sectionName (exHeap (student r)))
                        \<in> set (fst (privilegeRequests exHeap
                                (getCoursesWithStudents exHeap (InstructorSearchResult.students res))))
                    \<and> (\<forall>n'. (n', Student.courseId (exHeap (student r)), sectionName (exHeap (student r)))
                              \<in> set (fst (privilegeRequests exHeap
                                     (getCoursesWithStudents exHeap (InstructorSearchResult.students res))))
                            \<longrightarrow> n' = n)
                    \<and> searchInstructorPrivilege exService n (Student.courseId (exHeap (student r)))
                          (sectionName (exHeap (student r))) = Inr p
                    \<and> isAllowedToViewStudentInSection r = canViewStudentInSections p
                    \<and> isAllowedToModifyStudent r = canModifyStudent p)
         \<and> (\<forall>r \<in> set (rowsOf tables). \<forall>r' \<in> set (rowsOf tables).
               Student.courseId (exHeap (student r)) = Student.courseId (exHeap (student r'))
               \<and> sectionName (exHeap (student r)) = sectionName (exHeap (student r'))
               \<longrightarrow> isAllowedToViewStudentInSection r = isAllowedToViewStudentInSection r'
                 \<and> isAllowedToModifyStudent r = isAllowedToModifyStudent r')
         \<and> requests exStudentRun =
             (if isSearchForComments (searchParams exStudentSearch)
              then [SearchComment (searchKey (searchParams exStudentSearch))] else [])
             @ [SearchInstructor (searchKey (searchParams exStudentSearch))]
             @ map (\<lambda>l. SearchInstructorPrivilege (fst (snd l)) (snd (snd l)))
                 (fst (privilegeRequests exHeap
                        (getCoursesWithStudents exHeap (InstructorSearchResult.students res)))))"
proof -
  have a: "exStudentRun \<in> set (search exHeap exService exStudentSearch)"
    by (simp add: search_exStudentSearch)
  have b: "delivered exStudentRun
       = Some (Next (placeholder, \<lparr>searchCommentTables = Some [], searchStudentTables = Some exTables\<rparr>))"
    by (simp add: exStudentRun_def)
  have c: "isSearchForStudents (searchParams exStudentSearch)"
    by (simp add: exStudentSearch_def)
  have d: "studentsListRowTables (final exStudentRun) = exTables"
    by (simp add: exStudentRun_def)
  show ?thesis
    by (rule conjI [OF a conjI [OF b conjI [OF c conjI [OF d
          search_rows_carry_fetched_privileges [OF a b c]]]]])
qed

subsection \<open>Failing remote calls\<close>

lemma stops_cases:
  "x \<in> set (stops ns) \<Longrightarrow> (\<exists>e. x = Error e \<and> Error e \<in> set ns) \<or> (x = Complete \<and> Complete \<in> set ns)"
  by (induction ns rule: stops.induct) auto

lemma forkJoin_nonempty: "forkJoin ns \<noteq> []"
  by (simp add: forkJoin_def)

lemma forkJoin2_nonempty: "forkJoin2 a b \<noteq> []"
  by (cases a; cases b) (simp_all add: forkJoin2_def)

lemma forkJoin2_cases:
  assumes "n \<in> set (forkJoin2 a b)"
  shows "(\<exists>x y. n = Next (x, y) \<and> a = Next x \<and> b = Next y)
       \<or> (\<exists>e. n = Error e \<and> (a = Error e \<or> b = Error e))
       \<or> (n = Complete \<and> (a = Complete \<or> b = Complete))"
  using assms by (cases a; cases b) (auto simp: forkJoin2_def)

lemma rows_in_groups:
  "r \<in> set (rowsOf cws) \<longleftrightarrow> (\<exists>g \<in> set cws. r \<in> set (SearchStudentsListRowTable.students g))"
  by (auto simp: rowsOf_def)

lemma issued_snd_set:
  "snd ` set (fst (privilegeRequests h cws)) = set (allPairs h cws)"
  using issued_pairs [of h cws] by (metis set_map)

lemma entry_Some:
  assumes "r \<in> set (rowsOf (getCoursesWithStudents h studs))"
  shows "\<exists>l \<in> set (fst (privilegeRequests h (getCoursesWithStudents h studs))).
           lookupFor (fst (privilegeRequests h (getCoursesWithStudents h studs)))
             (Student.courseId (h (student r))) (sectionOf h r) = Some l"
proof -
  let ?cws = "getCoursesWithStudents h studs"
  let ?issued = "fst (privilegeRequests h ?cws)"
  from assms obtain g where g: "g \<in> set ?cws" "r \<in> set (SearchStudentsListRowTable.students g)"
    by (auto simp: rows_in_groups)
  have "(SearchStudentsListRowTable.courseId g, sectionOf h r) \<in> set (pairsOf h g)"
    using g(2) by (simp add: set_pairsOf)
  then have "(Student.courseId (h (student r)), sectionOf h r) \<in> set (allPairs h ?cws)"
    using g by (auto simp: allPairs_def group_courseId)
  then have "lookupFor ?issued (Student.courseId (h (student r))) (sectionOf h r) \<noteq> None"
    by (simp only: lookupFor_None_iff issued_snd_set not_not)
  then obtain l where "lookupFor ?issued (Student.courseId (h (student r))) (sectionOf h r) = Some l"
    by blast
  then show ?thesis using lookupFor_Some by blast
qed

lemma issued_referenced:
  assumes "l \<in> set (fst (privilegeRequests h (getCoursesWithStudents h studs)))"
  shows "Some l \<in> set (snd (privilegeRequests h (getCoursesWithStudents h studs)))"
proof -
  let ?cws = "getCoursesWithStudents h studs"
  let ?issued = "fst (privilegeRequests h ?cws)"
  have "snd l \<in> set (allPairs h ?cws)" using assms issued_snd_set [of h ?cws] by blast
  then obtain g where g: "g \<in> set ?cws" "snd l \<in> set (pairsOf h g)"
    by (auto simp: allPairs_def)
  then obtain r where r: "r \<in> set (SearchStudentsListRowTable.students g)"
      "snd l = (SearchStudentsListRowTable.courseId g, sectionOf h r)"
    by (auto simp: set_pairsOf)
  have rr: "r \<in> set (rowsOf ?cws)" using g(1) r(1) by (auto simp: rows_in_groups)
  from entry_Some [OF rr] obtain l' where l': "l' \<in> set ?issued"
      "lookupFor ?issued (Student.courseId (h (student r))) (sectionOf h r) = Some l'"
    by blast
  have "snd l' = snd l"
    using lookupFor_Some [OF l'(2)] r(2) group_courseId [OF g(1) r(1)] by simp
  moreover have "inj_on snd (set ?issued)"
    using distinct_allPairs [OF distinct_courseIds [of h studs], of h]
    by (simp only: issued_pairs [symmetric] distinct_map)
  ultimately have "l' = l" using l'(1) assms by (auto dest: inj_onD)
  then have "lookupFor ?issued (Student.courseId (h (student r))) (sectionOf h r) = Some l"
    using l'(2) by simp
  then show ?thesis using rr by (simp add: entries_flat image_iff) (metis)
qed

lemma failure_message_iff:
  "m \<in> set (case r of Inl m' \<Rightarrow> [m'] | Inr p \<Rightarrow> []) \<longleftrightarrow> r = Inl m"
  by (cases r) auto

lemma lookupFailures_iff:
  "m \<in> set (lookupFailures svc issued)
     \<longleftrightarrow> (\<exists>l \<in> set issued. searchInstructorPrivilege svc (fst l) (fst (snd l)) (snd (snd l)) = Inl m)"
  by (simp only: lookupFailures_def set_concat set_map image_image UN_iff failure_message_iff)

lemma lookupSource_Some:
  "lookupSource svc (Some l) = http (searchInstructorPrivilege svc (fst l) (fst (snd l)) (snd (snd l)))"
  by (cases l) (simp add: lookupSource_def)

lemma http_cases:
  "(\<exists>v. r = Inr v \<and> http r = Next v) \<or> (\<exists>m. r = Inl m \<and> http r = Error (ErrorMessageOutput m))"
  by (cases r) (simp_all add: http_def)

lemma sources_cases:
  assumes "x \<in> set (map (lookupSource svc) (snd (privilegeRequests h (getCoursesWithStudents h studs))))"
  shows "(\<exists>p. x = Next p)
       \<or> (\<exists>m \<in> set (lookupFailures svc (fst (privilegeRequests h (getCoursesWithStudents h studs)))).
             x = Error (ErrorMessageOutput m))"
proof -
  let ?cws = "getCoursesWithStudents h studs"
  let ?issued = "fst (privilegeRequests h ?cws)"
  from assms obtain r where r: "r \<in> set (rowsOf ?cws)"
      and x: "x = lookupSource svc (lookupFor ?issued (Student.courseId (h (student r))) (sectionOf h r))"
    by (auto simp: entries_flat)
  from entry_Some [OF r] obtain l where l: "l \<in> set ?issued"
      "lookupFor ?issued (Student.courseId (h (student r))) (sectionOf h r) = Some l"
    by blast
  have "x = http (searchInstructorPrivilege svc (fst l) (fst (snd l)) (snd (snd l)))"
    by (simp only: x l(2) lookupSource_Some)
  then show ?thesis
    using http_cases [of "searchInstructorPrivilege svc (fst l) (fst (snd l)) (snd (snd l))"] l(1)
      lookupFailures_iff [of _ svc ?issued]
    by metis
qed

lemma sources_failing:
  assumes "m \<in> set (lookupFailures svc (fst (privilegeRequests h (getCoursesWithStudents h studs))))"
  shows "Error (ErrorMessageOutput m)
           \<in> set (map (lookupSource svc) (snd (privilegeRequests h (getCoursesWithStudents h studs))))"
proof -
  from assms obtain l where l: "l \<in> set (fst (privilegeRequests h (getCoursesWithStudents h studs)))"
      "searchInstructorPrivilege svc (fst l) (fst (snd l)) (snd (snd l)) = Inl m"
    by (auto simp: lookupFailures_iff)
  have "lookupSource svc (Some l) = Error (ErrorMessageOutput m)"
    by (simp add: lookupSource_Some l(2) http_def)
  then show ?thesis using issued_referenced [OF l(1)] by (metis image_eqI set_map)
qed

lemma getPrivileges_outcomes:
  "getPrivileges h svc (getCoursesWithStudents h studs) \<noteq> []"
  "n \<in> set (getPrivileges h svc (getCoursesWithStudents h studs)) \<Longrightarrow>
     (\<exists>ps. n = Next ps \<and> lookupFailures svc (fst (privilegeRequests h (getCoursesWithStudents h studs))) = [])
     \<or> (\<exists>m \<in> set (lookupFailures svc (fst (privilegeRequests h (getCoursesWithStudents h studs)))).
           n = Error (ErrorMessageOutput m))"
proof -
  let ?cws = "getCoursesWithStudents h studs"
  let ?srcs = "map (lookupSource svc) (snd (privilegeRequests h ?cws))"
  let ?fails = "lookupFailures svc (fst (privilegeRequests h ?cws))"
  show "getPrivileges h svc ?cws \<noteq> []"
    by (simp add: getPrivileges_def forkJoin_nonempty)
  assume n: "n \<in> set (getPrivileges h svc ?cws)"
  show "(\<exists>ps. n = Next ps \<and> ?fails = []) \<or> (\<exists>m \<in> set ?fails. n = Error (ErrorMessageOutput m))"
  proof (cases "?cws = []")
    case True
    then show ?thesis using n by (simp add: getPrivileges_def privilegeRequests_def lookupFailures_def)
  next
    case False
    then have "studs \<noteq> []" by (simp add: getCoursesWithStudents_Nil_iff)
    then have "rowsOf ?cws \<noteq> []" by (rule rowsOf_nonempty)
    then have ne: "?srcs \<noteq> []" by (simp add: entries_flat)
    have nf: "n \<in> set (forkJoin ?srcs)" using n False by (simp add: getPrivileges_def)
    show ?thesis
    proof (cases "stops ?srcs = ([] :: InstructorPrivilege list notification list)")
      case True
      have "?fails = []"
      proof (rule ccontr)
        assume "?fails \<noteq> []"
        then obtain m where "m \<in> set ?fails" by (meson list.set_sel(1))
        then have "Error (ErrorMessageOutput m) \<in> set ?srcs" by (rule sources_failing)
        then have "(Error (ErrorMessageOutput m) :: InstructorPrivilege list notification) \<in> set (stops ?srcs)"
          by (simp only: stops_Error_iff)
        then show False using True by simp
      qed
      then show ?thesis using nf ne True by (simp add: forkJoin_def)
    next
      case F: False
      then have "n \<in> set (stops ?srcs)" using nf ne by (simp add: forkJoin_def)
      from stops_cases [OF this] show ?thesis
      proof
        assume "\<exists>e. n = Error e \<and> Error e \<in> set ?srcs"
        then obtain e where e: "n = Error e" "Error e \<in> set ?srcs" by blast
        from sources_cases [OF e(2)] show ?thesis using e(1) by auto
      next
        assume "n = Complete \<and> Complete \<in> set ?srcs"
        then have "Complete \<in> set ?srcs" by simp
        from sources_cases [OF this] show ?thesis by auto
      qed
    qed
  qed
qed

lemma commentBranch_outcomes:
  "(\<exists>t. commentBranch svc p = Next t \<and> commentFailures svc p = [])
   \<or> (\<exists>m \<in> set (commentFailures svc p). commentBranch svc p = Error (ErrorMessageOutput m))"
proof (cases "isSearchForComments p")
  case False
  then show ?thesis by (simp add: commentBranch_def commentFailures_def)
next
  case True
  then show ?thesis
    by (cases "searchComment svc (searchKey p)")
       (simp_all add: commentBranch_def commentFailures_def http_def)
qed

lemma studentBranch_outcomes:
  "snd (studentBranch h svc p) \<noteq> []"
  "s \<in> set (snd (studentBranch h svc p)) \<Longrightarrow>
     (\<exists>t. s = Next t \<and> studentFailures h svc p = [])
     \<or> (\<exists>m \<in> set (studentFailures h svc p). s = Error (ErrorMessageOutput m))"
proof -
  show "snd (studentBranch h svc p) \<noteq> []"
  proof (cases "isSearchForStudents p")
    case False
    then show ?thesis by (simp add: studentBranch_def)
  next
    case True
    show ?thesis
    proof (cases "searchInstructor svc (searchKey p)")
      case (Inl m)
      then show ?thesis using True by (simp add: studentBranch_def)
    next
      case (Inr res)
      let ?cws = "getCoursesWithStudents h (InstructorSearchResult.students res)"
      obtain n ns where ns: "getPrivileges h svc ?cws = n # ns"
        using getPrivileges_outcomes(1) [of h svc "InstructorSearchResult.students res"]
        by (cases "getPrivileges h svc ?cws") auto
      then show ?thesis using True Inr forkJoin2_nonempty [of "Next (byRef 0 ?cws)" n]
        by (simp add: studentBranch_def Let_def)
    qed
  qed
  assume s: "s \<in> set (snd (studentBranch h svc p))"
  show "(\<exists>t. s = Next t \<and> studentFailures h svc p = [])
     \<or> (\<exists>m \<in> set (studentFailures h svc p). s = Error (ErrorMessageOutput m))"
  proof (cases "isSearchForStudents p")
    case False
    then show ?thesis using s by (simp add: studentBranch_def studentFailures_def)
  next
    case True
    show ?thesis
    proof (cases "searchInstructor svc (searchKey p)")
      case (Inl m)
      then show ?thesis using s True by (simp add: studentBranch_def studentFailures_def)
    next
      case (Inr res)
      let ?cws = "getCoursesWithStudents h (InstructorSearchResult.students res)"
      let ?fails = "lookupFailures svc (fst (privilegeRequests h ?cws))"
      have sf: "studentFailures h svc p = ?fails"
        using True Inr by (simp add: studentFailures_def)
      from s True Inr obtain n x where n: "n \<in> set (getPrivileges h svc ?cws)"
        and x: "x \<in> set (forkJoin2 (Next (byRef 0 ?cws)) n)"
        and sx: "s = map_notification (\<lambda>res. snd (combinePrivileges (storeOf ?cws) res)) x"
        by (auto simp: studentBranch_def Let_def)
      from getPrivileges_outcomes(2) [OF n] show ?thesis
      proof
        assume "\<exists>ps. n = Next ps \<and> ?fails = []"
        then obtain ps where "n = Next ps" "?fails = []" by blast
        then show ?thesis using x sx sf by (simp add: forkJoin2_def)
      next
        assume "\<exists>m \<in> set ?fails. n = Error (ErrorMessageOutput m)"
        then obtain m where "m \<in> set ?fails" "n = Error (ErrorMessageOutput m)" by blast
        then show ?thesis using x sx sf by (auto simp: forkJoin2_def)
      qed
    qed
  qed
qed

lemma joined_nonempty: "joined h svc p \<noteq> []"
proof -
  obtain s ss where "snd (studentBranch h svc p) = s # ss"
    using studentBranch_outcomes(1) [of h svc p] by (cases "snd (studentBranch h svc p)") auto
  then show ?thesis
    using forkJoin2_nonempty [of "commentBranch svc p" s] by (simp add: joined_def Let_def)
qed

lemma joined_failing:
  assumes "rn \<in> set (joined h svc p)" and "failures h svc p \<noteq> []"
  shows "\<exists>m \<in> set (failures h svc p). snd rn = Error (ErrorMessageOutput m)"
proof -
  let ?c = "commentBranch svc p"
  from assms(1) consider (early) "snd rn \<in> set (stops [?c])"
    | (late) s where "s \<in> set (snd (studentBranch h svc p))" "snd rn \<in> set (forkJoin2 ?c s)"
    by (auto simp: joined_def Let_def)
  then show ?thesis
  proof cases
    case early
    from stops_cases [OF this] have "\<exists>e. snd rn = Error e \<and> ?c = Error e \<or> snd rn = Complete \<and> ?c = Complete"
      by auto
    then show ?thesis using commentBranch_outcomes [of svc p] by (auto simp: failures_def)
  next
    case late
    from forkJoin2_cases [OF late(2)] commentBranch_outcomes [of svc p]
      studentBranch_outcomes(2) [OF late(1)] assms(2)
    show ?thesis by (auto simp: failures_def)
  qed
qed

lemma subscribe_Error:
  "snd rn = Error (ErrorMessageOutput m) \<Longrightarrow>
   subscribe this rn = \<lparr>delivered = Some (Error (ErrorMessageOutput m)), requests = fst rn,
                         final = this\<lparr>isSearching := False\<rparr>, toasts = [ErrorToast m]\<rparr>"
  by (simp add: subscribe_def onError_def)

text \<open>
  C5: when the search runs and one of the remote calls it issues fails (the comment
  search, the student search or a privilege lookup), every possible run ends in the same
  way: the subscriber receives the error of one of the failing calls, exactly one error
  toast with that failure's message is shown, and the component is what it was before
  the search with the busy flag cleared, so no result table has changed.
\<close>

theorem search_failure_is_terminal:
  assumes "isSearchForComments (searchParams this) \<or> isSearchForStudents (searchParams this)"
    and "searchKey (searchParams this) \<noteq> ''''"
    and "failures h svc (searchParams this) \<noteq> []"
  shows "search h svc this \<noteq> []
       \<and> (\<forall>run \<in> set (search h svc this).
            \<exists>m \<in> set (failures h svc (searchParams this)).
              delivered run = Some (Error (ErrorMessageOutput m))
            \<and> toasts run = [ErrorToast m]
            \<and> final run = this\<lparr>isSearching := False\<rparr>)"
proof (intro conjI ballI)
  have eq: "search h svc this
      = map (subscribe (this\<lparr>isSearching := True\<rparr>)) (joined h svc (searchParams this))"
    using assms(1,2) by (simp add: search_def)
  show "search h svc this \<noteq> []"
    by (simp add: eq joined_nonempty)
  fix run assume "run \<in> set (search h svc this)"
  then obtain rn where rn: "rn \<in> set (joined h svc (searchParams this))"
      "run = subscribe (this\<lparr>isSearching := True\<rparr>) rn"
    by (auto simp: eq)
  from joined_failing [OF rn(1) assms(3)] obtain m where
    m: "m \<in> set (failures h svc (searchParams this))" "snd rn = Error (ErrorMessageOutput m)"
    by blast
  have "delivered run = Some (Error (ErrorMessageOutput m))
            \<and> toasts run = [ErrorToast m]
            \<and> final run = this\<lparr>isSearching := False\<rparr>"
    by (simp add: rn(2) subscribe_Error [OF m(2)])
  then show "\<exists>m \<in> set (failures h svc (searchParams this)).
              delivered run = Some (Error (ErrorMessageOutput m))
            \<and> toasts run = [ErrorToast m]
            \<and> final run = this\<lparr>isSearching := False\<rparr>"
    using m(1) by blast
qed

theorem search_failure_is_terminal_witness:
  "(isSearchForComments (searchParams exStudentSearch) \<or> isSearchForStudents (searchParams exStudentSearch))
   \<and> searchKey (searchParams exStudentSearch) \<noteq> ''''
   \<and> failures exHeap exFailingService (searchParams exStudentSearch) = [''lookup failed'']
   \<and> exFailingRun \<in> set (search exHeap exFailingService exStudentSearch)
   \<and> toasts exFailingRun = [ErrorToast ''lookup failed'']
   \<and> final exFailingRun = exStudentSearch\<lparr>isSearching := False\<rparr>"
proof -
  have a: "isSearchForComments (searchParams exStudentSearch) \<or> isSearchForStudents (searchParams exStudentSearch)"
    by (simp add: exStudentSearch_def)
  have b: "searchKey (searchParams exStudentSearch) \<noteq> ''''"
    by (simp add: exStudentSearch_def)
  have f: "failures exHeap exFailingService (searchParams exStudentSearch) = [''lookup failed'']"
    by code_simp
  then have c: "failures exHeap exFailingService (searchParams exStudentSearch) \<noteq> []"
    by simp
  have r: "exFailingRun \<in> set (search exHeap exFailingService exStudentSearch)"
    by (simp add: search_exFailingService)
  show ?thesis
    using a b f r search_failure_is_terminal [OF a b c] by auto
qed

end
